theory Spec2Isabelle
  imports Main
begin

section \<open>JSON values and \<open>JSON.stringify\<close>\<close>

text \<open>
  The scripts only handle values that come out of \<open>JSON.parse\<close> (the local export file and
  the body of \<open>GET /api/data\<close>).  Such a value is \<open>null\<close>, a boolean, a number, a string,
  an array or an object.  An object is kept as the list of its own properties in the order in
  which they were created, which for a parsed object is the order in which the text first
  names each key; the keys of one object are distinct.  The order in which JavaScript
  enumerates the properties is computed from that list by \<open>enumeration\<close> below.
  Numbers are integers (the \<open>number\<close>, \<open>startYear\<close> and \<open>endYear\<close> columns are
  \<open>INTEGER\<close>); strings are lists of 8-bit code units.  \<open>undefined\<close> is not a JSON value:
  a JavaScript value that may be \<open>undefined\<close> has type \<open>json option\<close>.
\<close>

datatype json =
    JNull
  | JBool bool
  | JNum int
  | JStr string
  | JArr "json list"
  | JObj "(string \<times> json) list"

type_synonym obj = "(string \<times> json) list"

type_synonym jsval = "json option"

definition digit_char :: "nat \<Rightarrow> char" where
  "digit_char d = ''0123456789abcdef'' ! d"

fun show_nat :: "nat \<Rightarrow> string" where
  "show_nat n = (if n < 10 then [digit_char n] else show_nat (n div 10) @ [digit_char (n mod 10)])"

definition show_int :: "int \<Rightarrow> string" where
  "show_int i = (if i < 0 then CHR ''-'' # show_nat (nat (- i)) else show_nat (nat i))"

text \<open>\<open>QuoteJSONString\<close>: the escapes of \<open>JSON.stringify\<close> for one code unit.\<close>

definition quote_char :: "char \<Rightarrow> string" where
  "quote_char c =
     (if c = CHR 0x22 then [CHR 0x5C, CHR 0x22]
      else if c = CHR 0x5C then [CHR 0x5C, CHR 0x5C]
      else if c = CHR 0x08 then [CHR 0x5C, CHR ''b'']
      else if c = CHR 0x0C then [CHR 0x5C, CHR ''f'']
      else if c = CHR 0x0A then [CHR 0x5C, CHR ''n'']
      else if c = CHR 0x0D then [CHR 0x5C, CHR ''r'']
      else if c = CHR 0x09 then [CHR 0x5C, CHR ''t'']
      else if (of_char c :: nat) < 32
        then [CHR 0x5C, CHR ''u'', CHR ''0'', CHR ''0'',
              digit_char (of_char c div 16), digit_char (of_char c mod 16)]
      else [c])"

definition quote :: "string \<Rightarrow> string" where
  "quote s = CHR 0x22 # concat (map quote_char s) @ [CHR 0x22]"

fun commas :: "string list \<Rightarrow> string" where
  "commas [] = []"
| "commas [x] = x"
| "commas (x # y # ys) = x @ CHR '','' # commas (y # ys)"

text \<open>
  The own property keys of an object are enumerated as \<open>OrdinaryOwnPropertyKeys\<close> orders
  them: first the keys that are array indices, in ascending numeric order, then the other
  keys in the order in which they were created.  A key is an array index when it is a
  canonical numeric string, that is the decimal text of its own value, and the value is
  below \<open>2\<^sup>3\<^sup>2 - 1\<close>: \<open>0\<close>, \<open>7\<close> and \<open>12\<close> are, \<open>07\<close>, \<open>-1\<close>, \<open>1.5\<close> and
  \<open>design\<close> are not.  So \<open>{"2": x, "1": y}\<close> and \<open>{"1": y, "2": x}\<close> are enumerated alike,
  \<open>{"b": x, "a": y}\<close> and \<open>{"a": y, "b": x}\<close> are not.
\<close>

definition is_digit :: "char \<Rightarrow> bool" where
  "is_digit c = (c \<in> set ''0123456789'')"

definition digit_value :: "char \<Rightarrow> nat" where
  "digit_value c =
     (case map_of (zip ''0123456789'' [0, 1, 2, 3, 4, 5, 6, 7, 8, 9]) c of
        Some d \<Rightarrow> d
      | None \<Rightarrow> 0)"

definition read_nat :: "string \<Rightarrow> nat" where
  "read_nat s = foldl (\<lambda>n c. 10 * n + digit_value c) 0 s"

definition array_index :: "string \<Rightarrow> nat option" where
  "array_index k =
     (if k \<noteq> [] \<and> list_all is_digit k \<and> show_nat (read_nat k) = k \<and> read_nat k < 4294967295
      then Some (read_nat k)
      else None)"

definition index_of :: "string \<times> 'a \<Rightarrow> nat" where
  "index_of p = (case array_index (fst p) of Some n \<Rightarrow> n | None \<Rightarrow> 0)"

definition enumeration :: "(string \<times> 'a) list \<Rightarrow> (string \<times> 'a) list" where
  "enumeration kvs =
     sort_key index_of (filter (\<lambda>p. array_index (fst p) \<noteq> None) kvs)
       @ filter (\<lambda>p. array_index (fst p) = None) kvs"

text \<open>
  \<open>SerializeJSONProperty\<close>, without replacer and indentation.  The members of an object
  are written in enumeration order, each as the quoted key, a colon and the text of the
  value.
\<close>

fun stringify :: "json \<Rightarrow> string" where
  "stringify JNull = ''null''"
| "stringify (JBool b) = (if b then ''true'' else ''false'')"
| "stringify (JNum n) = show_int n"
| "stringify (JStr s) = quote s"
| "stringify (JArr xs) = CHR ''['' # commas (map stringify xs) @ '']''"
| "stringify (JObj kvs) =
     CHR ''{''
       # commas (map (\<lambda>(k, s). quote k @ CHR '':'' # s)
                  (enumeration (map (\<lambda>(k, v). (k, stringify v)) kvs)))
       @ ''}''"

text \<open>\<open>JSON.stringify(undefined)\<close> is \<open>undefined\<close>, not a string.\<close>

definition JSON_stringify :: "jsval \<Rightarrow> string option" where
  "JSON_stringify v = map_option stringify v"

text \<open>
  \<^verbatim>\<open>function deepEqual(obj1, obj2) {
    return JSON.stringify(obj1) === JSON.stringify(obj2);
  }\<close>
\<close>

definition deepEqual :: "jsval \<Rightarrow> jsval \<Rightarrow> bool" where
  "deepEqual obj1 obj2 = (JSON_stringify obj1 = JSON_stringify obj2)"

text \<open>Property access \<open>p.k\<close> on an object: \<open>None\<close> is \<open>undefined\<close>.\<close>

definition property :: "obj \<Rightarrow> string \<Rightarrow> jsval" where
  "property p k = map_of p k"

definition id_of :: "obj \<Rightarrow> jsval" where
  "id_of p = property p ''id''"

text \<open>
  Full structural equality as the specification words it: every attribute is compared,
  sequences position by position, and a mapping as a mapping, so that the order in which its
  keys were inserted does not count: two mappings are equal when they have the same keys and
  hold equal values under each key.  This definition follows the specification, not the
  source; it is what \<open>deepEqual\<close> is compared with.
\<close>

fun struct_eq :: "json \<Rightarrow> json \<Rightarrow> bool" where
  "struct_eq (JArr xs) (JArr ys) = list_all2 struct_eq xs ys"
| "struct_eq (JObj ps) (JObj qs) =
     (fst ` set ps = fst ` set qs
      \<and> (\<forall>(k, v) \<in> set ps. \<forall>(k', w) \<in> set qs.
            k = k' \<and> map_of ps k = Some v \<and> map_of qs k' = Some w \<longrightarrow> struct_eq v w))"
| "struct_eq a b = (a = b)"

section \<open>JavaScript \<open>Map\<close>\<close>

text \<open>
  A \<open>Map\<close> keeps its entries in insertion order; \<open>set\<close> on a key that is already there
  replaces the value and keeps the position.  Keys are compared with SameValueZero: by value
  for \<open>undefined\<close>, \<open>null\<close>, booleans, numbers and strings, by reference for arrays and
  objects.  Every key used here is the \<open>id\<close> property of a freshly parsed record, so two array
  or object keys are never the same reference.
\<close>

fun is_primitive :: "jsval \<Rightarrow> bool" where
  "is_primitive (Some (JArr xs)) = False"
| "is_primitive (Some (JObj kvs)) = False"
| "is_primitive v = True"

definition same_value_zero :: "jsval \<Rightarrow> jsval \<Rightarrow> bool" where
  "same_value_zero a b = (is_primitive a \<and> a = b)"

type_synonym 'v jsmap = "(jsval \<times> 'v) list"

fun map_set :: "'v jsmap \<Rightarrow> jsval \<Rightarrow> 'v \<Rightarrow> 'v jsmap" where
  "map_set [] k v = [(k, v)]"
| "map_set ((k', v') # m) k v =
     (if same_value_zero k' k then (k', v) # m else (k', v') # map_set m k v)"

fun map_get :: "'v jsmap \<Rightarrow> jsval \<Rightarrow> 'v option" where
  "map_get [] k = None"
| "map_get ((k', v') # m) k = (if same_value_zero k' k then Some v' else map_get m k)"

fun map_has :: "'v jsmap \<Rightarrow> jsval \<Rightarrow> bool" where
  "map_has [] k = False"
| "map_has ((k', v') # m) k = (same_value_zero k' k \<or> map_has m k)"

definition new_Map :: "(jsval \<times> 'v) list \<Rightarrow> 'v jsmap" where
  "new_Map entries = foldl (\<lambda>m (k, v). map_set m k v) [] entries"

section \<open>Snapshots and the change plan of \<open>syncData\<close>\<close>

record snapshot =
  projects :: "obj list"
  settings :: jsval

text \<open>The pair \<open>{ local: localProj, prod: prodProj }\<close> pushed on \<open>toUpdate\<close>.\<close>

record update_pair =
  local :: obj
  prod :: obj

record plan =
  toCreate :: "obj list"
  toUpdate :: "update_pair list"
  toDelete :: "obj list"
  settingsChanged :: bool

text \<open>\<open>new Map(data.projects.map(p => [p.id, p]))\<close>\<close>

definition project_map :: "obj list \<Rightarrow> obj jsmap" where
  "project_map ps = new_Map (map (\<lambda>p. (id_of p, p)) ps)"

text \<open>
  \<^verbatim>\<open>for (const [id, localProj] of localMap) {
    const prodProj = prodMap.get(id);
    if (!prodProj) {
      toCreate.push(localProj);
    } else if (!deepEqual(localProj, prodProj)) {
      toUpdate.push({ local: localProj, prod: prodProj });
    }
  }\<close>
  A record is an object, hence truthy: \<open>!prodProj\<close> holds exactly when the key is absent.
\<close>

fun find_creates_updates ::
  "obj jsmap \<Rightarrow> (jsval \<times> obj) list \<Rightarrow> obj list \<times> update_pair list \<Rightarrow> obj list \<times> update_pair list"
where
  "find_creates_updates prodMap [] acc = acc"
| "find_creates_updates prodMap ((key, localProj) # rest) (cs, us) =
     (case map_get prodMap key of
        None \<Rightarrow> find_creates_updates prodMap rest (cs @ [localProj], us)
      | Some prodProj \<Rightarrow>
          if \<not> deepEqual (Some (JObj localProj)) (Some (JObj prodProj))
          then find_creates_updates prodMap rest
                 (cs, us @ [\<lparr>local = localProj, prod = prodProj\<rparr>])
          else find_creates_updates prodMap rest (cs, us))"

text \<open>
  \<^verbatim>\<open>for (const [id, prodProj] of prodMap) {
    if (!localMap.has(id)) {
      toDelete.push(prodProj);
    }
  }\<close>
\<close>

fun find_deletes :: "obj jsmap \<Rightarrow> (jsval \<times> obj) list \<Rightarrow> obj list \<Rightarrow> obj list" where
  "find_deletes localMap [] ds = ds"
| "find_deletes localMap ((key, prodProj) # rest) ds =
     (if \<not> map_has localMap key
      then find_deletes localMap rest (ds @ [prodProj])
      else find_deletes localMap rest ds)"

definition analyze :: "snapshot \<Rightarrow> snapshot \<Rightarrow> plan" where
  "analyze localData prodData =
     (let localMap = project_map (projects localData);
          prodMap = project_map (projects prodData);
          (cs, us) = find_creates_updates prodMap localMap ([], []);
          ds = find_deletes localMap prodMap []
      in \<lparr>toCreate = cs, toUpdate = us, toDelete = ds,
          settingsChanged = (\<not> deepEqual (settings localData) (settings prodData))\<rparr>)"

text \<open>
  \<open>toCreate.length === 0 && toUpdate.length === 0 && toDelete.length === 0 && !settingsChanged\<close>
\<close>

definition plan_empty :: "plan \<Rightarrow> bool" where
  "plan_empty pl =
     (length (toCreate pl) = 0 \<and> length (toUpdate pl) = 0 \<and> length (toDelete pl) = 0
      \<and> \<not> settingsChanged pl)"

section \<open>Loading a snapshot\<close>

text \<open>
  A snapshot is a document \<open>{ projects, settings }\<close>.  The scripts are followed on the
  documents of the data model of the repository:

    \<^item> \<open>projects\<close> is an array of records, and every record is an object;

    \<^item> the \<open>id\<close> of a record is an opaque identifier (\<open>id TEXT PRIMARY KEY\<close>); where a
      property of the plan needs ids that are not arrays or objects, its statement says so
      with \<open>primitive_ids\<close>;

    \<^item> the \<open>name\<close> of a record is text (\<open>name TEXT NOT NULL\<close>), or at least a value that a
      template literal prints: the scripts print \<open>${project.name}\<close> after every operation,
      also inside the \<open>catch\<close> of a failed one, and on a name that is an object with an own
      \<open>toString\<close> that is no function this raises a \<open>TypeError\<close> that ends the run;

    \<^item> \<open>settings\<close> is taken as it comes; where a property of a run needs settings that
      hold a \<open>colorMap\<close> (\<open>color_map TEXT NOT NULL\<close>), its statement says so with
      \<open>wf_settings\<close>.

  On a document that is \<open>null\<close> or has no \<open>projects\<close>, \<open>data.projects.length\<close> raises a
  \<open>TypeError\<close> in both scripts.  On an element of \<open>projects\<close> that is \<open>null\<close>,
  \<open>syncData\<close> raises at \<open>p.id\<close> while it builds its two \<open>Map\<close>s, before any request but
  the fetch; \<open>replaceProduction\<close> does not read \<open>p.id\<close> before its loops and would get as far
  as the backup and the prompts.  Arrays holding \<open>null\<close>, numbers, strings or booleans in
  place of records are not snapshots of the data model: the model does not follow the
  scripts on them and treats them like the documents that raise.
\<close>

fun as_obj :: "json \<Rightarrow> obj option" where
  "as_obj (JObj p) = Some p"
| "as_obj v = None"

definition as_snapshot :: "json \<Rightarrow> snapshot option" where
  "as_snapshot data =
     (case data of
        JObj kvs \<Rightarrow>
          (case property kvs ''projects'' of
             Some (JArr ps) \<Rightarrow>
               (case those (map as_obj ps) of
                  Some recs \<Rightarrow> Some \<lparr>projects = recs, settings = property kvs ''settings''\<rparr>
                | None \<Rightarrow> None)
           | _ \<Rightarrow> None)
      | _ \<Rightarrow> None)"

section \<open>The remote gateway, the console and the trace of a run\<close>

text \<open>
  The requests the scripts send with \<open>fetch\<close>.  The id in the URL of \<open>PUT\<close> and \<open>DELETE\<close> is
  the record's \<open>id\<close> property.  The server of this repository has no route that changes the
  settings; \<open>PUT_settings\<close> stands for the request that the scripts would need and never send.
\<close>

datatype request =
    GET_data
  | POST_project obj
  | PUT_project jsval obj
  | DELETE_project jsval
  | PUT_settings jsval

text \<open>
  What \<open>await fetch(...)\<close> gives: the promise rejects (\<open>NetworkError\<close>), or a response with
  its \<open>ok\<close> flag and its body as \<open>response.json()\<close> reads it, \<open>None\<close> when the body is not
  JSON and \<open>response.json()\<close> rejects.
\<close>

datatype response = NetworkError | Http bool jsval

text \<open>
  The remote side is any deterministic machine: it answers a request in a state and moves to
  the next state.  Nothing is assumed about it.
\<close>

type_synonym 'w gateway = "'w \<Rightarrow> request \<Rightarrow> response \<times> 'w"

text \<open>
  The lines the two scripts print, by what they report and without their wording; a line on
  one operation names the operation and the record.
\<close>

datatype operation = Create | Update | Delete

datatype line =
    LocalFileNotFound
  | AlreadyInSync
  | SyncSummary plan
  | SettingsWillBeUpdated
  | YearRange
  | ColorMap nat nat
  | ProjectTypeColors nat nat
  | SyncCancelled
  | StartingSync
  | Done operation obj
  | FailedTo operation obj
  | ErrorIn operation obj
  | UpdatingSettings
  | SettingsSyncNotImplemented
  | SyncComplete nat nat
  | SyncFailed
  | BackupSaved
  | ReplacementPlan nat nat
  | ReplacementCancelled
  | StartingReplacement
  | DeletionComplete nat nat
  | CreationComplete nat nat
  | ReplacementComplete nat nat nat
  | ProductionNowHas jsval
  | ReplacementFailed

text \<open>
  One run leaves a trace, in the order of the effects: requests sent (with the answer each
  one got), lines printed, questions asked on the terminal, and the backup file written.
\<close>

datatype event =
    Fetch request response
  | Print line
  | Ask
  | WriteBackup json

datatype status = Returned | Exit1

record 'w run =
  world :: 'w
  trace :: "event list"

definition emit :: "event \<Rightarrow> 'w run \<Rightarrow> 'w run" where
  "emit e r = r\<lparr>trace := trace r @ [e]\<rparr>"

definition say :: "line list \<Rightarrow> 'w run \<Rightarrow> 'w run" where
  "say ls r = r\<lparr>trace := trace r @ map Print ls\<rparr>"

definition fetch :: "'w gateway \<Rightarrow> request \<Rightarrow> 'w run \<Rightarrow> response \<times> 'w run" where
  "fetch gw req r =
     (let (resp, w') = gw (world r) req
      in (resp, \<lparr>world = w', trace = trace r @ [Fetch req resp]\<rparr>))"

text \<open>
  \<^verbatim>\<open>async function fetchProductionData() {
    const response = await fetch(`${API_URL}/data`);
    if (!response.ok) {
      throw new Error(`Failed to fetch production data: ${response.status}`);
    }
    return await response.json();
  }\<close>
  \<open>None\<close> is a throw.
\<close>

definition fetchProductionData :: "'w gateway \<Rightarrow> 'w run \<Rightarrow> jsval \<times> 'w run" where
  "fetchProductionData gw r =
     (case fetch gw GET_data r of
        (NetworkError, r') \<Rightarrow> (None, r')
      | (Http ok body, r') \<Rightarrow> if \<not> ok then (None, r') else (body, r'))"

section \<open>Confirmation\<close>

text \<open>
  \<open>toLowerCase\<close> and \<open>toUpperCase\<close> on the letters of ASCII.  No other 8-bit code unit is
  mapped to a letter of \<open>yes\<close>, \<open>y\<close> or \<open>YES\<close> by JavaScript, so the comparisons below agree
  with the source on every answer of 8-bit code units.
\<close>

definition lower_char :: "char \<Rightarrow> char" where
  "lower_char c =
     (case map_of (zip ''ABCDEFGHIJKLMNOPQRSTUVWXYZ'' ''abcdefghijklmnopqrstuvwxyz'') c of
        Some l \<Rightarrow> l
      | None \<Rightarrow> c)"

definition upper_char :: "char \<Rightarrow> char" where
  "upper_char c =
     (case map_of (zip ''abcdefghijklmnopqrstuvwxyz'' ''ABCDEFGHIJKLMNOPQRSTUVWXYZ'') c of
        Some u \<Rightarrow> u
      | None \<Rightarrow> c)"

definition toLowerCase :: "string \<Rightarrow> string" where
  "toLowerCase s = map lower_char s"

definition toUpperCase :: "string \<Rightarrow> string" where
  "toUpperCase s = map upper_char s"

text \<open>
  \<open>answer.toLowerCase() !== 'yes' && answer.toLowerCase() !== 'y'\<close> cancels the sync.
\<close>

definition sync_denied :: "string \<Rightarrow> bool" where
  "sync_denied answer = (toLowerCase answer \<noteq> ''yes'' \<and> toLowerCase answer \<noteq> ''y'')"

section \<open>The settings part of the sync summary\<close>

definition nullish :: "jsval \<Rightarrow> bool" where
  "nullish v = (v = None \<or> v = Some JNull)"

text \<open>
  \<open>v.k\<close> for a value that is neither \<open>undefined\<close> nor \<open>null\<close> and a key that is not a
  built-in property: the property of an object, \<open>undefined\<close> otherwise.
\<close>

definition member :: "jsval \<Rightarrow> string \<Rightarrow> jsval" where
  "member v k = (case v of Some (JObj p) \<Rightarrow> property p k | _ \<Rightarrow> None)"

fun truthy :: "jsval \<Rightarrow> bool" where
  "truthy None = False"
| "truthy (Some JNull) = False"
| "truthy (Some (JBool b)) = b"
| "truthy (Some (JNum n)) = (n \<noteq> 0)"
| "truthy (Some (JStr s)) = (s \<noteq> [])"
| "truthy (Some v) = True"

text \<open>\<open>a || b\<close>\<close>

definition js_or :: "jsval \<Rightarrow> jsval \<Rightarrow> jsval" where
  "js_or a b = (if truthy a then a else b)"

text \<open>\<open>a !== b\<close>: two arrays or objects parsed separately are never the same reference.\<close>

definition strict_neq :: "jsval \<Rightarrow> jsval \<Rightarrow> bool" where
  "strict_neq a b = (\<not> (is_primitive a \<and> a = b))"

text \<open>\<open>Object.keys(v).length\<close>; \<open>None\<close> is the \<open>TypeError\<close> on \<open>undefined\<close> and \<open>null\<close>.\<close>

fun keys_length :: "jsval \<Rightarrow> nat option" where
  "keys_length None = None"
| "keys_length (Some JNull) = None"
| "keys_length (Some (JObj p)) = Some (length p)"
| "keys_length (Some (JArr xs)) = Some (length xs)"
| "keys_length (Some (JStr s)) = Some (length s)"
| "keys_length (Some v) = Some 0"

text \<open>
  \<^verbatim>\<open>if (settingsChanged) {
    console.log('SETTINGS will be updated:');
    if (localData.settings.startYear !== prodData.settings.startYear) { console.log(...) }
    if (!deepEqual(localData.settings.colorMap, prodData.settings.colorMap)) {
      console.log(`... ${Object.keys(prodData.settings.colorMap).length} ->
                       ${Object.keys(localData.settings.colorMap).length} colors`);
    }
    if (!deepEqual(localData.settings.projectTypeColors, prodData.settings.projectTypeColors)) {
      console.log(`... ${Object.keys(prodData.settings.projectTypeColors || {}).length} ->
                       ${Object.keys(localData.settings.projectTypeColors || {}).length} colors`);
    }
  }\<close>
  The result is the lines printed and whether a \<open>TypeError\<close> was then thrown.
\<close>

definition show_settings :: "jsval \<Rightarrow> jsval \<Rightarrow> line list \<times> bool" where
  "show_settings ls ps =
     (if nullish ls \<or> nullish ps then ([SettingsWillBeUpdated], True)
      else
        let years = (if strict_neq (member ls ''startYear'') (member ps ''startYear'')
                     then [YearRange] else []);
            types = (if \<not> deepEqual (member ls ''projectTypeColors'') (member ps ''projectTypeColors'')
                     then [ProjectTypeColors
                             (case keys_length (js_or (member ps ''projectTypeColors'') (Some (JObj [])))
                                of Some n \<Rightarrow> n | None \<Rightarrow> 0)
                             (case keys_length (js_or (member ls ''projectTypeColors'') (Some (JObj [])))
                                of Some n \<Rightarrow> n | None \<Rightarrow> 0)]
                     else [])
        in if \<not> deepEqual (member ls ''colorMap'') (member ps ''colorMap'')
           then (case (keys_length (member ps ''colorMap''), keys_length (member ls ''colorMap'')) of
                   (Some n, Some m) \<Rightarrow> (SettingsWillBeUpdated # years @ [ColorMap n m] @ types, False)
                 | _ \<Rightarrow> (SettingsWillBeUpdated # years, True))
           else (SettingsWillBeUpdated # years @ types, False))"

section \<open>Execution of the sync plan\<close>

text \<open>
  The body of each of the three loops of \<open>syncData\<close>:
  \<^verbatim>\<open>try {
    const response = await fetch(...);
    if (response.ok) { console.log(...); successCount++; }
    else { const error = await response.json();
           console.log(`... ${error.error}`); failCount++; }
  } catch (err) { console.log(...); failCount++; }\<close>
  \<open>response.json()\<close> rejects on a body that is not JSON and \<open>error.error\<close> throws on
  \<open>null\<close>; both land in the \<open>catch\<close>.
\<close>

definition attempt ::
  "'w gateway \<Rightarrow> operation \<Rightarrow> obj \<Rightarrow> request \<Rightarrow> nat \<times> nat \<times> 'w run \<Rightarrow> nat \<times> nat \<times> 'w run"
where
  "attempt gw kind project req st =
     (case st of (successCount, failCount, r) \<Rightarrow>
        (case fetch gw req r of
           (NetworkError, r') \<Rightarrow> (successCount, failCount + 1, say [ErrorIn kind project] r')
         | (Http ok body, r') \<Rightarrow>
             if ok then (successCount + 1, failCount, say [Done kind project] r')
             else if nullish body then (successCount, failCount + 1, say [ErrorIn kind project] r')
             else (successCount, failCount + 1, say [FailedTo kind project] r')))"

fun create_loop :: "'w gateway \<Rightarrow> obj list \<Rightarrow> nat \<times> nat \<times> 'w run \<Rightarrow> nat \<times> nat \<times> 'w run" where
  "create_loop gw [] st = st"
| "create_loop gw (project # rest) st =
     create_loop gw rest (attempt gw Create project (POST_project project) st)"

fun update_loop :: "'w gateway \<Rightarrow> update_pair list \<Rightarrow> nat \<times> nat \<times> 'w run \<Rightarrow> nat \<times> nat \<times> 'w run" where
  "update_loop gw [] st = st"
| "update_loop gw (u # rest) st =
     update_loop gw rest (attempt gw Update (local u) (PUT_project (id_of (local u)) (local u)) st)"

fun delete_loop :: "'w gateway \<Rightarrow> obj list \<Rightarrow> nat \<times> nat \<times> 'w run \<Rightarrow> nat \<times> nat \<times> 'w run" where
  "delete_loop gw [] st = st"
| "delete_loop gw (project # rest) st =
     delete_loop gw rest (attempt gw Delete project (DELETE_project (id_of project)) st)"

text \<open>
  The part of \<open>syncData\<close> after the confirmation: creates, then updates, then deletes, the
  note on the settings, and the counts.
\<close>

definition execute_plan :: "'w gateway \<Rightarrow> plan \<Rightarrow> 'w run \<Rightarrow> 'w run" where
  "execute_plan gw pl r =
     (case delete_loop gw (toDelete pl)
             (update_loop gw (toUpdate pl)
               (create_loop gw (toCreate pl) (0, 0, say [StartingSync] r))) of
        (successCount, failCount, r') \<Rightarrow>
          say [SyncComplete successCount failCount]
            (if settingsChanged pl then say [UpdatingSettings, SettingsSyncNotImplemented] r'
             else r'))"

text \<open>
  \<open>syncData\<close>, in the three parts it runs through.  \<open>local_file\<close> is \<open>None\<close> when
  \<open>local-data.json\<close> does not exist, \<open>Some None\<close> when it cannot be read or parsed, and
  \<open>Some (Some data)\<close> otherwise; \<open>autoConfirm\<close> is the \<open>--confirm\<close> flag; \<open>answer\<close> is what
  the operator types if asked.  A throw inside the outer \<open>try\<close> prints the failure and exits
  with status 1.

  First the two snapshots are loaded.
\<close>

definition sync_load ::
  "'w gateway \<Rightarrow> json option option \<Rightarrow> 'w \<Rightarrow> (status \<times> 'w run) + (snapshot \<times> snapshot \<times> 'w run)"
where
  "sync_load gw local_file w =
     (let r0 = \<lparr>world = w, trace = []\<rparr> in
      case local_file of
        None \<Rightarrow> Inl (Exit1, say [LocalFileNotFound] r0)
      | Some parsed \<Rightarrow>
          (case Option.bind parsed as_snapshot of
             None \<Rightarrow> Inl (Exit1, say [SyncFailed] r0)
           | Some localData \<Rightarrow>
               (case fetchProductionData gw r0 of (body, r1) \<Rightarrow>
                  (case Option.bind body as_snapshot of
                     None \<Rightarrow> Inl (Exit1, say [SyncFailed] r1)
                   | Some prodData \<Rightarrow> Inr (localData, prodData, r1)))))"

text \<open>Then the plan is computed and shown, the operator is asked, and the plan is executed.\<close>

definition sync_review ::
  "'w gateway \<Rightarrow> bool \<Rightarrow> string \<Rightarrow> snapshot \<Rightarrow> snapshot \<Rightarrow> 'w run \<Rightarrow> status \<times> 'w run"
where
  "sync_review gw autoConfirm answer localData prodData r1 =
     (let pl = analyze localData prodData in
      if plan_empty pl then (Returned, say [AlreadyInSync] r1)
      else
        let (ls, thrown) =
              (if settingsChanged pl
               then show_settings (settings localData) (settings prodData)
               else ([], False));
            r2 = say (SyncSummary pl # ls) r1
        in if thrown then (Exit1, say [SyncFailed] r2)
           else if \<not> autoConfirm then
             (if sync_denied answer then (Returned, say [SyncCancelled] (emit Ask r2))
              else (Returned, execute_plan gw pl (emit Ask r2)))
           else (Returned, execute_plan gw pl r2))"

definition syncData ::
  "'w gateway \<Rightarrow> bool \<Rightarrow> string \<Rightarrow> json option option \<Rightarrow> 'w \<Rightarrow> status \<times> 'w run"
where
  "syncData gw autoConfirm answer local_file w =
     (case sync_load gw local_file w of
        Inl stopped \<Rightarrow> stopped
      | Inr (localData, prodData, r1) \<Rightarrow> sync_review gw autoConfirm answer localData prodData r1)"

section \<open>The replace workflow\<close>

text \<open>
  \<open>deleteAllProjects\<close>: a response that is not \<open>ok\<close> is counted without reading its body.
\<close>

fun deleteAllProjects :: "'w gateway \<Rightarrow> obj list \<Rightarrow> nat \<times> nat \<times> 'w run \<Rightarrow> nat \<times> nat \<times> 'w run" where
  "deleteAllProjects gw [] st = st"
| "deleteAllProjects gw (project # rest) (deleted, failed, r) =
     (case fetch gw (DELETE_project (id_of project)) r of
        (NetworkError, r') \<Rightarrow>
          deleteAllProjects gw rest (deleted, failed + 1, say [ErrorIn Delete project] r')
      | (Http ok body, r') \<Rightarrow>
          if ok then deleteAllProjects gw rest (deleted + 1, failed, say [Done Delete project] r')
          else deleteAllProjects gw rest (deleted, failed + 1, say [FailedTo Delete project] r'))"

fun createProjects :: "'w gateway \<Rightarrow> obj list \<Rightarrow> nat \<times> nat \<times> 'w run \<Rightarrow> nat \<times> nat \<times> 'w run" where
  "createProjects gw [] st = st"
| "createProjects gw (project # rest) st =
     createProjects gw rest (attempt gw Create project (POST_project project) st)"

text \<open>\<open>answer1 !== 'REPLACE'\<close>, then \<open>answer2.toUpperCase() !== 'YES'\<close>.\<close>

definition replace_denied1 :: "string \<Rightarrow> bool" where
  "replace_denied1 answer1 = (answer1 \<noteq> ''REPLACE'')"

definition replace_denied2 :: "string \<Rightarrow> bool" where
  "replace_denied2 answer2 = (toUpperCase answer2 \<noteq> ''YES'')"

text \<open>
  The part of \<open>replaceProduction\<close> after the confirmation: delete every production record,
  create every local record, the note on the settings, the summary, and the final fetch.
  \<open>finalData.projects.length\<close> throws when \<open>finalData.projects\<close> is \<open>undefined\<close> or \<open>null\<close>.
\<close>

definition js_length :: "jsval \<Rightarrow> jsval" where
  "js_length v =
     (case v of
        Some (JArr xs) \<Rightarrow> Some (JNum (int (length xs)))
      | Some (JStr s) \<Rightarrow> Some (JNum (int (length s)))
      | Some (JObj p) \<Rightarrow> property p ''length''
      | _ \<Rightarrow> None)"

definition replace_execute :: "'w gateway \<Rightarrow> snapshot \<Rightarrow> snapshot \<Rightarrow> 'w run \<Rightarrow> status \<times> 'w run" where
  "replace_execute gw localData prodData r =
     (case deleteAllProjects gw (projects prodData) (0, 0, say [StartingReplacement] r) of
        (deleted, dfailed, r1) \<Rightarrow>
          (case createProjects gw (projects localData) (0, 0, say [DeletionComplete deleted dfailed] r1) of
             (created, cfailed, r2) \<Rightarrow>
               (case fetchProductionData gw
                       (say [CreationComplete created cfailed, SettingsSyncNotImplemented,
                             ReplacementComplete deleted created (dfailed + cfailed)] r2) of
                  (finalData, r3) \<Rightarrow>
                    if nullish finalData \<or> nullish (member finalData ''projects'')
                    then (Exit1, say [ReplacementFailed] r3)
                    else (Returned, say [ProductionNowHas (js_length (member finalData ''projects''))] r3))))"

text \<open>
  \<open>replaceProduction\<close>, in its three parts.  \<open>backup_ok\<close> tells whether
  \<open>fs.writeFileSync(BACKUP_FILE, JSON.stringify(prodData, null, 2))\<close> and the
  \<open>fs.statSync\<close> after it succeed; when they do, the document written is in the trace.

  First the local snapshot is loaded, the production snapshot fetched and the backup written.
\<close>

definition replace_load ::
  "'w gateway \<Rightarrow> bool \<Rightarrow> json option option \<Rightarrow> 'w \<Rightarrow> (status \<times> 'w run) + (snapshot \<times> snapshot \<times> 'w run)"
where
  "replace_load gw backup_ok local_file w =
     (let r0 = \<lparr>world = w, trace = []\<rparr> in
      case local_file of
        None \<Rightarrow> Inl (Exit1, say [LocalFileNotFound] r0)
      | Some parsed \<Rightarrow>
          (case Option.bind parsed as_snapshot of
             None \<Rightarrow> Inl (Exit1, say [ReplacementFailed] r0)
           | Some localData \<Rightarrow>
               (case fetchProductionData gw r0 of (body, r1) \<Rightarrow>
                  (case body of
                     None \<Rightarrow> Inl (Exit1, say [ReplacementFailed] r1)
                   | Some data \<Rightarrow>
                       (case as_snapshot data of
                          None \<Rightarrow> Inl (Exit1, say [ReplacementFailed] r1)
                        | Some prodData \<Rightarrow>
                            if \<not> backup_ok then Inl (Exit1, say [ReplacementFailed] r1)
                            else Inr (localData, prodData,
                                      say [BackupSaved] (emit (WriteBackup data) r1)))))))"

text \<open>Then the plan is shown, the operator is asked twice, and production is replaced.\<close>

definition replace_confirm ::
  "'w gateway \<Rightarrow> bool \<Rightarrow> string \<Rightarrow> string \<Rightarrow> snapshot \<Rightarrow> snapshot \<Rightarrow> 'w run \<Rightarrow> status \<times> 'w run"
where
  "replace_confirm gw autoConfirm answer1 answer2 localData prodData r2 =
     (let r3 = say [ReplacementPlan (length (projects prodData)) (length (projects localData))] r2
      in if \<not> autoConfirm then
           (if replace_denied1 answer1 then (Returned, say [ReplacementCancelled] (emit Ask r3))
            else if replace_denied2 answer2
              then (Returned, say [ReplacementCancelled] (emit Ask (emit Ask r3)))
            else replace_execute gw localData prodData (emit Ask (emit Ask r3)))
         else replace_execute gw localData prodData r3)"

definition replaceProduction ::
  "'w gateway \<Rightarrow> bool \<Rightarrow> string \<Rightarrow> string \<Rightarrow> bool \<Rightarrow> json option option \<Rightarrow> 'w \<Rightarrow> status \<times> 'w run"
where
  "replaceProduction gw autoConfirm answer1 answer2 backup_ok local_file w =
     (case replace_load gw backup_ok local_file w of
        Inl stopped \<Rightarrow> stopped
      | Inr (localData, prodData, r2) \<Rightarrow>
          replace_confirm gw autoConfirm answer1 answer2 localData prodData r2)"

section \<open>The handlers of the gateway\<close>

text \<open>
  \<open>projectData\<close> of \<open>app.post('/api/projects')\<close>: the fifteen parameters of the
  \<open>INSERT\<close>, in the order of the source.  \<open>rnd\<close> is the value of
  \<open>Math.floor(Math.random() * 1000)\<close> in this request, a number from 0 to 999.
\<close>

record project_data =
  pd_id :: jsval
  pd_number :: jsval
  pd_name :: jsval
  pd_practiceName :: jsval
  pd_briefDescription :: jsval
  pd_client :: jsval
  pd_value :: jsval
  pd_area :: jsval
  pd_location :: jsval
  pd_projectTypes :: "string option"
  pd_typeColor :: jsval
  pd_thumbnail :: jsval
  pd_notes :: jsval
  pd_stages :: "string option"
  pd_pauses :: "string option"

definition projectData :: "obj \<Rightarrow> nat \<Rightarrow> project_data" where
  "projectData project rnd =
     \<lparr>pd_id = property project ''id'',
      pd_number = js_or (property project ''number'') (Some (JNum (int rnd))),
      pd_name = property project ''name'',
      pd_practiceName = js_or (property project ''practiceName'') (Some JNull),
      pd_briefDescription = js_or (property project ''briefDescription'') (Some JNull),
      pd_client = js_or (property project ''client'') (Some (JStr [])),
      pd_value = js_or (property project ''value'') (Some (JStr [])),
      pd_area = js_or (property project ''area'') (Some (JStr [])),
      pd_location = js_or (property project ''location'') (Some (JStr [])),
      pd_projectTypes = JSON_stringify (js_or (property project ''projectTypes'') (Some (JArr []))),
      pd_typeColor = js_or (property project ''typeColor'') (Some (JStr ''#5a8a99'')),
      pd_thumbnail = js_or (property project ''thumbnail'') (Some (JStr [])),
      pd_notes = js_or (property project ''notes'') (Some (JStr [])),
      pd_stages = JSON_stringify (property project ''stages''),
      pd_pauses = JSON_stringify (js_or (property project ''pauses'') (Some (JArr [])))\<rparr>"

text \<open>
  The statements the two handlers send to the database, and the database as the handlers see
  it: a statement either is carried out, giving the next state, or is rejected (\<open>None\<close>).
\<close>

datatype statement =
    INSERT_INTO_projects project_data
  | DELETE_FROM_projects string

type_synonym 'db driver = "'db \<Rightarrow> statement \<Rightarrow> 'db option"

datatype reply = Json200 json | Json500 json

text \<open>
  \<^verbatim>\<open>app.delete('/api/projects/:id', async (req, res) => {
    const projectId = req.params.id;
    try {
      if (isProduction) { await db.query("DELETE FROM projects WHERE id=$1", [projectId]); }
      else { db.run("DELETE FROM projects WHERE id=?", projectId); }
      res.json({ success: true });
    } catch (err) { res.status(500).json({ error: 'Failed to delete project' }); }
  });\<close>
  \<open>db.run\<close> of SQLite returns at once and reports a failure to a callback, which is not
  given here: nothing is thrown in that branch.
\<close>

definition delete_handler :: "bool \<Rightarrow> 'db driver \<Rightarrow> 'db \<Rightarrow> string \<Rightarrow> reply \<times> 'db" where
  "delete_handler isProduction query db projectId =
     (if isProduction then
        (case query db (DELETE_FROM_projects projectId) of
           None \<Rightarrow> (Json500 (JObj [(''error'', JStr ''Failed to delete project'')]), db)
         | Some db' \<Rightarrow> (Json200 (JObj [(''success'', JBool True)]), db'))
      else
        (Json200 (JObj [(''success'', JBool True)]),
         case query db (DELETE_FROM_projects projectId) of None \<Rightarrow> db | Some db' \<Rightarrow> db'))"

text \<open>\<open>app.post('/api/projects')\<close>, with the same two branches.\<close>

definition create_handler :: "bool \<Rightarrow> 'db driver \<Rightarrow> 'db \<Rightarrow> obj \<Rightarrow> nat \<Rightarrow> reply \<times> 'db" where
  "create_handler isProduction query db project rnd =
     (let pd = projectData project rnd in
      if isProduction then
        (case query db (INSERT_INTO_projects pd) of
           None \<Rightarrow> (Json500 (JObj [(''error'', JStr ''Failed to create project'')]), db)
         | Some db' \<Rightarrow>
             (Json200 (JObj ((''success'', JBool True) #
                             (case pd_id pd of None \<Rightarrow> [] | Some i \<Rightarrow> [(''id'', i)]))), db'))
      else
        (Json200 (JObj ((''success'', JBool True) #
                        (case pd_id pd of None \<Rightarrow> [] | Some i \<Rightarrow> [(''id'', i)]))),
         case query db (INSERT_INTO_projects pd) of None \<Rightarrow> db | Some db' \<Rightarrow> db'))"

text \<open>
  A table \<open>projects\<close> as the \<open>CREATE TABLE\<close> of the source declares it: \<open>id\<close> is the primary
  key, and \<open>number\<close>, \<open>name\<close>, \<open>project_types\<close>, \<open>type_color\<close> and \<open>stages\<close> are
  \<open>NOT NULL\<close> (\<open>undefined\<close> and \<open>null\<close> are both stored as \<open>NULL\<close>).  \<open>DELETE ... WHERE id\<close>
  removes the rows with that id, whether there are any or not.
\<close>

type_synonym projects_table = "project_data list"

definition violates_constraints :: "projects_table \<Rightarrow> project_data \<Rightarrow> bool" where
  "violates_constraints rows pd =
     (nullish (pd_id pd) \<or> pd_id pd \<in> set (map pd_id rows) \<or> nullish (pd_number pd)
      \<or> nullish (pd_name pd) \<or> pd_projectTypes pd = None \<or> nullish (pd_typeColor pd)
      \<or> pd_stages pd = None)"

fun table_query :: "projects_table driver" where
  "table_query rows (INSERT_INTO_projects pd) =
     (if violates_constraints rows pd then None else Some (rows @ [pd]))"
| "table_query rows (DELETE_FROM_projects projectId) =
     Some (filter (\<lambda>row. pd_id row \<noteq> Some (JStr projectId)) rows)"

section \<open>What the properties speak about\<close>

text \<open>
  The ids of a snapshot, and the record a snapshot holds for an id (the one the \<open>Map\<close>
  built from it returns).
\<close>

definition ids :: "snapshot \<Rightarrow> jsval set" where
  "ids s = id_of ` set (projects s)"

definition record_of :: "snapshot \<Rightarrow> jsval \<Rightarrow> obj option" where
  "record_of s k = map_get (project_map (projects s)) k"

text \<open>
  The ids of the data model are opaque identifiers (\<open>id TEXT PRIMARY KEY\<close>): strings, or
  at least not arrays or objects.
\<close>

definition primitive_ids :: "snapshot \<Rightarrow> bool" where
  "primitive_ids s = list_all (\<lambda>p. is_primitive (id_of p)) (projects s)"

text \<open>The ids found in both snapshots whose two records \<open>deepEqual\<close> tells apart, or not.\<close>

definition differing :: "snapshot \<Rightarrow> snapshot \<Rightarrow> jsval set" where
  "differing source target =
     {k \<in> ids source \<inter> ids target.
        \<not> deepEqual (map_option JObj (record_of source k)) (map_option JObj (record_of target k))}"

definition unchanged :: "snapshot \<Rightarrow> snapshot \<Rightarrow> jsval set" where
  "unchanged source target =
     {k \<in> ids source \<inter> ids target.
        deepEqual (map_option JObj (record_of source k)) (map_option JObj (record_of target k))}"

text \<open>The requests of a trace, in order, and the kinds of request.\<close>

fun requests :: "event list \<Rightarrow> request list" where
  "requests [] = []"
| "requests (Fetch req resp # es) = req # requests es"
| "requests (e # es) = requests es"

fun is_create :: "request \<Rightarrow> bool" where
  "is_create (POST_project p) = True"
| "is_create req = False"

fun is_update :: "request \<Rightarrow> bool" where
  "is_update (PUT_project k p) = True"
| "is_update req = False"

fun is_delete :: "request \<Rightarrow> bool" where
  "is_delete (DELETE_project k) = True"
| "is_delete req = False"

fun is_settings_mutation :: "request \<Rightarrow> bool" where
  "is_settings_mutation (PUT_settings s) = True"
| "is_settings_mutation req = False"

definition is_mutation :: "request \<Rightarrow> bool" where
  "is_mutation req = (is_create req \<or> is_update req \<or> is_delete req)"

definition mutations :: "event list \<Rightarrow> request list" where
  "mutations tr = filter is_mutation (requests tr)"

text \<open>Every \<open>P\<close> comes before any \<open>Q\<close>: once a \<open>Q\<close> has been seen, no \<open>P\<close> follows.\<close>

fun all_before :: "('a \<Rightarrow> bool) \<Rightarrow> ('a \<Rightarrow> bool) \<Rightarrow> 'a list \<Rightarrow> bool" where
  "all_before P Q [] = True"
| "all_before P Q (x # xs) = ((Q x \<longrightarrow> \<not> list_ex P xs) \<and> all_before P Q xs)"

text \<open>The requests a plan stands for, in the order of \<open>toCreate\<close>, \<open>toUpdate\<close>, \<open>toDelete\<close>.\<close>

definition create_requests :: "plan \<Rightarrow> request list" where
  "create_requests pl = map POST_project (toCreate pl)"

definition update_requests :: "plan \<Rightarrow> request list" where
  "update_requests pl = map (\<lambda>u. PUT_project (id_of (local u)) (local u)) (toUpdate pl)"

definition delete_requests :: "plan \<Rightarrow> request list" where
  "delete_requests pl = map (\<lambda>p. DELETE_project (id_of p)) (toDelete pl)"

text \<open>The mutations of a trace that were not answered with \<open>ok\<close>.\<close>

fun ok :: "response \<Rightarrow> bool" where
  "ok (Http b body) = b"
| "ok NetworkError = False"

fun failures :: "event list \<Rightarrow> nat" where
  "failures [] = 0"
| "failures (Fetch req resp # es) = (if is_mutation req \<and> \<not> ok resp then 1 else 0) + failures es"
| "failures (e # es) = failures es"

text \<open>
  Settings as the data model has them: an object whose \<open>colorMap\<close> is a mapping.
\<close>

definition wf_settings :: "jsval \<Rightarrow> bool" where
  "wf_settings s =
     (case s of
        Some (JObj p) \<Rightarrow> (case property p ''colorMap'' of Some (JObj m) \<Rightarrow> True | _ \<Rightarrow> False)
      | _ \<Rightarrow> False)"

text \<open>
  When a run of \<open>syncData\<close> gets to execute its plan: the summary of the settings must not
  throw, and the operator confirms or \<open>--confirm\<close> was given.  The same for the two answers of
  \<open>replaceProduction\<close>.
\<close>

definition summary_throws :: "snapshot \<Rightarrow> snapshot \<Rightarrow> bool" where
  "summary_throws localData prodData =
     (settingsChanged (analyze localData prodData)
      \<and> snd (show_settings (settings localData) (settings prodData)))"

definition sync_confirmed :: "bool \<Rightarrow> string \<Rightarrow> bool" where
  "sync_confirmed autoConfirm answer = (autoConfirm \<or> \<not> sync_denied answer)"

definition replace_confirmed :: "bool \<Rightarrow> string \<Rightarrow> string \<Rightarrow> bool" where
  "replace_confirmed autoConfirm answer1 answer2 =
     (autoConfirm \<or> (\<not> replace_denied1 answer1 \<and> \<not> replace_denied2 answer2))"

text \<open>The answers to \<open>GET /api/data\<close> on which \<open>fetchProductionData\<close> throws.\<close>

fun fetch_throws :: "response \<Rightarrow> bool" where
  "fetch_throws NetworkError = True"
| "fetch_throws (Http b body) = (\<not> b \<or> body = None)"

text \<open>
  Two gateways to run the scripts against: one serves a fixed document and accepts every
  change; the other one also rejects the deletion of one id.
\<close>

fun accepting_gateway :: "json \<Rightarrow> unit gateway" where
  "accepting_gateway data w GET_data = (Http True (Some data), w)"
| "accepting_gateway data w req = (Http True (Some (JObj [(''success'', JBool True)])), w)"

definition rejecting_gateway :: "json \<Rightarrow> jsval \<Rightarrow> unit gateway" where
  "rejecting_gateway data bad w req =
     (if req = DELETE_project bad
      then (Http False (Some (JObj [(''error'', JStr ''Failed to delete project'')])), w)
      else accepting_gateway data w req)"

text \<open>
  Small documents to run the scripts on: a record with an id and a name, settings with a
  colour map, and the document of a snapshot.
\<close>

definition record_named :: "string \<Rightarrow> string \<Rightarrow> obj" where
  "record_named i n = [(''id'', JStr i), (''name'', JStr n)]"

definition settings_with :: "obj \<Rightarrow> json" where
  "settings_with colorMap =
     JObj [(''startYear'', JNum 2011), (''endYear'', JNum 2026), (''colorMap'', JObj colorMap),
           (''projectTypeColors'', JObj [])]"

text \<open>The document that \<open>JSON.parse\<close> reads back as a given snapshot.\<close>

definition document_of :: "snapshot \<Rightarrow> json" where
  "document_of s =
     JObj ((''projects'', JArr (map JObj (projects s))) #
           (case settings s of None \<Rightarrow> [] | Some st \<Rightarrow> [(''settings'', st)]))"

text \<open>Scenario A of the specification: ids 1, 2, 3 against 2, 3, 4; record 2 differs in name.\<close>

definition scenario_A_source :: snapshot where
  "scenario_A_source =
     \<lparr>projects = [record_named ''1'' ''Atrium'', record_named ''2'' ''Bridge (new)'',
                  record_named ''3'' ''Campus''],
      settings = Some (settings_with [(''Residential'', JStr ''#aa0000'')])\<rparr>"

definition scenario_A_target :: snapshot where
  "scenario_A_target =
     \<lparr>projects = [record_named ''2'' ''Bridge'', record_named ''3'' ''Campus'',
                  record_named ''4'' ''Depot''],
      settings = Some (settings_with [(''Residential'', JStr ''#aa0000'')])\<rparr>"

text \<open>
  Two snapshots holding one record each, equal but for the order of the two keys inside the
  nested mapping \<open>stages\<close>.
\<close>

definition staged_record :: "obj \<Rightarrow> obj" where
  "staged_record stages = [(''id'', JStr ''7''), (''name'', JStr ''Gallery''), (''stages'', JObj stages)]"

definition reordered_source :: snapshot where
  "reordered_source =
     \<lparr>projects = [staged_record [(''design'', JStr ''2020''), (''build'', JStr ''2021'')]],
      settings = Some (settings_with [])\<rparr>"

definition reordered_target :: snapshot where
  "reordered_target =
     \<lparr>projects = [staged_record [(''build'', JStr ''2021''), (''design'', JStr ''2020'')]],
      settings = Some (settings_with [])\<rparr>"

text \<open>
  The same with the keys \<open>2\<close> and \<open>1\<close>, which are array indices: JavaScript enumerates them
  as \<open>1\<close>, \<open>2\<close> in both records.
\<close>

definition numbered_source :: snapshot where
  "numbered_source =
     \<lparr>projects = [staged_record [(''2'', JStr ''2021''), (''1'', JStr ''2020'')]],
      settings = Some (settings_with [])\<rparr>"

definition numbered_target :: snapshot where
  "numbered_target =
     \<lparr>projects = [staged_record [(''1'', JStr ''2020''), (''2'', JStr ''2021'')]],
      settings = Some (settings_with [])\<rparr>"

text \<open>Scenario D of the specification: the settings differ only in \<open>colorMap\<close>.\<close>

definition scenario_D_source :: snapshot where
  "scenario_D_source =
     \<lparr>projects = [record_named ''1'' ''Atrium''],
      settings = Some (settings_with [(''Residential'', JStr ''#aa0000'')])\<rparr>"

definition scenario_D_target :: snapshot where
  "scenario_D_target =
     \<lparr>projects = [record_named ''1'' ''Atrium''],
      settings = Some (settings_with [(''Residential'', JStr ''#00aa00'')])\<rparr>"

section \<open>Notions used in the proofs about \<open>JSON.stringify\<close>\<close>

text \<open>
  The value with the properties of every object, at any depth, listed in enumeration order:
  two values have the same \<open>JSON.stringify\<close> text exactly when they agree in this form.
\<close>

fun enumerated :: "json \<Rightarrow> json" where
  "enumerated (JArr xs) = JArr (map enumerated xs)"
| "enumerated (JObj kvs) = JObj (enumeration (map (\<lambda>(k, v). (k, enumerated v)) kvs))"
| "enumerated a = a"

text \<open>The text of a value whose objects are written in the order of their lists.\<close>

fun plain :: "json \<Rightarrow> string" where
  "plain JNull = ''null''"
| "plain (JBool b) = (if b then ''true'' else ''false'')"
| "plain (JNum n) = show_int n"
| "plain (JStr s) = quote s"
| "plain (JArr xs) = CHR ''['' # commas (map plain xs) @ '']''"
| "plain (JObj kvs) =
     CHR ''{'' # commas (map (\<lambda>(k, v). quote k @ CHR '':'' # plain v) kvs) @ ''}''"

text \<open>Two records that \<open>deepEqual\<close> does not tell apart.\<close>

definition same_text :: "obj \<Rightarrow> obj \<Rightarrow> bool" where
  "same_text l p = deepEqual (Some (JObj l)) (Some (JObj p))"

text \<open>
  A text that does not go on with a digit can follow a number without changing it; and the
  constructor of a value, which the first character of its text shows.
\<close>

definition delimited :: "string \<Rightarrow> bool" where
  "delimited r = (case r of [] \<Rightarrow> True | c # cs \<Rightarrow> \<not> is_digit c)"

fun tag :: "json \<Rightarrow> nat" where
  "tag JNull = 0"
| "tag (JBool b) = 1"
| "tag (JNum n) = 2"
| "tag (JStr s) = 3"
| "tag (JArr xs) = 4"
| "tag (JObj kvs) = 5"

definition start_class :: "char \<Rightarrow> nat" where
  "start_class c =
     (if c = CHR ''n'' then 0
      else if c = CHR ''t'' \<or> c = CHR ''f'' then 1
      else if c = CHR ''-'' \<or> is_digit c then 2
      else if c = CHR 0x22 then 3
      else if c = CHR ''['' then 4
      else if c = CHR ''{'' then 5
      else 6)"

text \<open>The items of an array or object after the first one, each with its comma.\<close>

definition following :: "string list \<Rightarrow> string" where
  "following xs = concat (map (\<lambda>x. CHR '','' # x) xs)"

declare show_nat.simps [simp del]

section \<open>Traces of the loops and of the two workflows\<close>

lemma requests_append [simp]: "requests (xs @ ys) = requests xs @ requests ys"
  by (induction xs rule: requests.induct) simp_all

lemma requests_Print [simp]: "requests (map Print ls) = []"
  by (induction ls) simp_all

lemma failures_append [simp]: "failures (xs @ ys) = failures xs + failures ys"
  by (induction xs rule: failures.induct) simp_all

lemma failures_Print [simp]: "failures (map Print ls) = 0"
  by (induction ls) simp_all

lemma trace_say [simp]: "trace (say ls r) = trace r @ map Print ls"
  by (simp add: say_def)

lemma trace_emit [simp]: "trace (emit e r) = trace r @ [e]"
  by (simp add: emit_def)

lemma fetch_effect:
  "fetch gw req r = (resp, r') \<Longrightarrow> trace r' = trace r @ [Fetch req resp]"
  by (auto simp: fetch_def Let_def split: prod.splits)

text \<open>One attempt sends its request, prints one line and counts once.\<close>

lemma attempt_effect:
  assumes "attempt gw kind p req (s, f, r) = (s', f', r')"
  shows "\<exists>resp l. trace r' = trace r @ [Fetch req resp, Print l]
           \<and> s' = s + (if ok resp then 1 else 0) \<and> f' = f + (if ok resp then 0 else 1)"
proof (cases "fetch gw req r")
  case (Pair resp r1)
  then have sent: "trace r1 = trace r @ [Fetch req resp]"
    by (rule fetch_effect)
  from assms Pair have "\<exists>l. r' = say [l] r1"
    by (cases resp) (auto simp: attempt_def split: if_splits)
  then obtain l where "trace r' = trace r @ [Fetch req resp, Print l]"
    using sent by auto
  moreover from assms Pair
  have "s' = s + (if ok resp then 1 else 0) \<and> f' = f + (if ok resp then 0 else 1)"
    by (cases resp) (auto simp: attempt_def split: if_splits)
  ultimately show ?thesis
    by blast
qed

lemma create_loop_effect:
  "create_loop gw ps (s, f, r) = (s', f', r') \<Longrightarrow>
     \<exists>ext. trace r' = trace r @ ext \<and> requests ext = map POST_project ps
       \<and> s' + f' = s + f + length ps \<and> f' = f + failures ext"
proof (induction ps arbitrary: s f r)
  case Nil
  then show ?case by simp
next
  case (Cons p ps)
  obtain s1 f1 r1 where step: "attempt gw Create p (POST_project p) (s, f, r) = (s1, f1, r1)"
    by (metis prod_cases3)
  from attempt_effect [OF step] obtain resp l where
    one: "trace r1 = trace r @ [Fetch (POST_project p) resp, Print l]"
      "s1 = s + (if ok resp then 1 else 0)" "f1 = f + (if ok resp then 0 else 1)"
    by blast
  from Cons.prems step have "create_loop gw ps (s1, f1, r1) = (s', f', r')"
    by simp
  from Cons.IH [OF this] obtain ext where
    rest: "trace r' = trace r1 @ ext" "requests ext = map POST_project ps"
      "s' + f' = s1 + f1 + length ps" "f' = f1 + failures ext"
    by blast
  show ?case
    using one rest
    by (intro exI [of _ "[Fetch (POST_project p) resp, Print l] @ ext"])
       (simp add: is_mutation_def)
qed

lemma update_loop_effect:
  "update_loop gw us (s, f, r) = (s', f', r') \<Longrightarrow>
     \<exists>ext. trace r' = trace r @ ext
       \<and> requests ext = map (\<lambda>u. PUT_project (id_of (local u)) (local u)) us
       \<and> s' + f' = s + f + length us \<and> f' = f + failures ext"
proof (induction us arbitrary: s f r)
  case Nil
  then show ?case by simp
next
  case (Cons u us)
  let ?req = "PUT_project (id_of (local u)) (local u)"
  obtain s1 f1 r1 where step: "attempt gw Update (local u) ?req (s, f, r) = (s1, f1, r1)"
    by (metis prod_cases3)
  from attempt_effect [OF step] obtain resp l where
    one: "trace r1 = trace r @ [Fetch ?req resp, Print l]"
      "s1 = s + (if ok resp then 1 else 0)" "f1 = f + (if ok resp then 0 else 1)"
    by blast
  from Cons.prems step have "update_loop gw us (s1, f1, r1) = (s', f', r')"
    by simp
  from Cons.IH [OF this] obtain ext where
    rest: "trace r' = trace r1 @ ext"
      "requests ext = map (\<lambda>u. PUT_project (id_of (local u)) (local u)) us"
      "s' + f' = s1 + f1 + length us" "f' = f1 + failures ext"
    by blast
  show ?case
    using one rest
    by (intro exI [of _ "[Fetch ?req resp, Print l] @ ext"]) (simp add: is_mutation_def)
qed

lemma delete_loop_effect:
  "delete_loop gw ps (s, f, r) = (s', f', r') \<Longrightarrow>
     \<exists>ext. trace r' = trace r @ ext
       \<and> requests ext = map (\<lambda>p. DELETE_project (id_of p)) ps
       \<and> s' + f' = s + f + length ps \<and> f' = f + failures ext"
proof (induction ps arbitrary: s f r)
  case Nil
  then show ?case by simp
next
  case (Cons p ps)
  let ?req = "DELETE_project (id_of p)"
  obtain s1 f1 r1 where step: "attempt gw Delete p ?req (s, f, r) = (s1, f1, r1)"
    by (metis prod_cases3)
  from attempt_effect [OF step] obtain resp l where
    one: "trace r1 = trace r @ [Fetch ?req resp, Print l]"
      "s1 = s + (if ok resp then 1 else 0)" "f1 = f + (if ok resp then 0 else 1)"
    by blast
  from Cons.prems step have "delete_loop gw ps (s1, f1, r1) = (s', f', r')"
    by simp
  from Cons.IH [OF this] obtain ext where
    rest: "trace r' = trace r1 @ ext"
      "requests ext = map (\<lambda>p. DELETE_project (id_of p)) ps"
      "s' + f' = s1 + f1 + length ps" "f' = f1 + failures ext"
    by blast
  show ?case
    using one rest
    by (intro exI [of _ "[Fetch ?req resp, Print l] @ ext"]) (simp add: is_mutation_def)
qed

lemma createProjects_is_create_loop: "createProjects gw ps st = create_loop gw ps st"
  by (induction ps arbitrary: st) simp_all

lemma deleteAllProjects_effect:
  "deleteAllProjects gw ps (d, f, r) = (d', f', r') \<Longrightarrow>
     \<exists>ext. trace r' = trace r @ ext
       \<and> requests ext = map (\<lambda>p. DELETE_project (id_of p)) ps
       \<and> d' + f' = d + f + length ps \<and> f' = f + failures ext"
proof (induction ps arbitrary: d f r)
  case Nil
  then show ?case by simp
next
  case (Cons p ps)
  let ?req = "DELETE_project (id_of p)"
  obtain resp r0 where sent: "fetch gw ?req r = (resp, r0)"
    by (cases "fetch gw ?req r")
  then have tr0: "trace r0 = trace r @ [Fetch ?req resp]"
    by (rule fetch_effect)
  define d1 where "d1 = d + (if ok resp then 1 else 0)"
  define f1 where "f1 = f + (if ok resp then 0 else (1::nat))"
  from Cons.prems sent have "\<exists>l. deleteAllProjects gw ps (d1, f1, say [l] r0) = (d', f', r')"
    by (cases resp) (auto simp: d1_def f1_def split: if_splits)
  then obtain l where "deleteAllProjects gw ps (d1, f1, say [l] r0) = (d', f', r')"
    by blast
  from Cons.IH [OF this] obtain ext where
    rest: "trace r' = trace (say [l] r0) @ ext"
      "requests ext = map (\<lambda>p. DELETE_project (id_of p)) ps"
      "d' + f' = d1 + f1 + length ps" "f' = f1 + failures ext"
    by blast
  show ?case
    using tr0 rest
    by (intro exI [of _ "[Fetch ?req resp, Print l] @ ext"])
       (simp add: is_mutation_def d1_def f1_def)
qed

text \<open>The execution of a plan: what it adds to the trace.\<close>

lemma execute_plan_effect:
  "\<exists>ext s f. trace (execute_plan gw pl r) = trace r @ ext @ [Print (SyncComplete s f)]
     \<and> requests ext = create_requests pl @ update_requests pl @ delete_requests pl
     \<and> s + f = length (toCreate pl) + length (toUpdate pl) + length (toDelete pl)
     \<and> f = failures ext
     \<and> (settingsChanged pl \<longrightarrow> Print SettingsSyncNotImplemented \<in> set ext)"
proof -
  obtain s1 f1 r1 where c: "create_loop gw (toCreate pl) (0, 0, say [StartingSync] r) = (s1, f1, r1)"
    by (metis prod_cases3)
  obtain s2 f2 r2 where u: "update_loop gw (toUpdate pl) (s1, f1, r1) = (s2, f2, r2)"
    by (metis prod_cases3)
  obtain s3 f3 r3 where d: "delete_loop gw (toDelete pl) (s2, f2, r2) = (s3, f3, r3)"
    by (metis prod_cases3)
  from create_loop_effect [OF c] obtain e1 where
    e1: "trace r1 = trace (say [StartingSync] r) @ e1" "requests e1 = map POST_project (toCreate pl)"
      "s1 + f1 = 0 + 0 + length (toCreate pl)" "f1 = 0 + failures e1"
    by blast
  from update_loop_effect [OF u] obtain e2 where
    e2: "trace r2 = trace r1 @ e2"
      "requests e2 = map (\<lambda>u. PUT_project (id_of (local u)) (local u)) (toUpdate pl)"
      "s2 + f2 = s1 + f1 + length (toUpdate pl)" "f2 = f1 + failures e2"
    by blast
  from delete_loop_effect [OF d] obtain e3 where
    e3: "trace r3 = trace r2 @ e3"
      "requests e3 = map (\<lambda>p. DELETE_project (id_of p)) (toDelete pl)"
      "s3 + f3 = s2 + f2 + length (toDelete pl)" "f3 = f2 + failures e3"
    by blast
  let ?note = "if settingsChanged pl then [UpdatingSettings, SettingsSyncNotImplemented] else []"
  have "execute_plan gw pl r = say [SyncComplete s3 f3] (say ?note r3)"
    using c u d by (simp add: execute_plan_def say_def)
  then have "trace (execute_plan gw pl r)
       = trace r @ (Print StartingSync # e1 @ e2 @ e3 @ map Print ?note) @ [Print (SyncComplete s3 f3)]"
    using e1(1) e2(1) e3(1) by simp
  moreover have "requests (Print StartingSync # e1 @ e2 @ e3 @ map Print ?note)
       = create_requests pl @ update_requests pl @ delete_requests pl"
    using e1(2) e2(2) e3(2)
    by (simp add: create_requests_def update_requests_def delete_requests_def)
  moreover have "s3 + f3 = length (toCreate pl) + length (toUpdate pl) + length (toDelete pl)"
    using e1(3) e2(3) e3(3) by simp
  moreover have "f3 = failures (Print StartingSync # e1 @ e2 @ e3 @ map Print ?note)"
    using e1(4) e2(4) e3(4) by simp
  moreover have "settingsChanged pl \<longrightarrow>
       Print SettingsSyncNotImplemented \<in> set (Print StartingSync # e1 @ e2 @ e3 @ map Print ?note)"
    by simp
  ultimately show ?thesis
    by blast
qed

lemma fetchProductionData_effect:
  "fetchProductionData gw r = (body, r') \<Longrightarrow>
     trace r' = trace r @ [Fetch GET_data (fst (gw (world r) GET_data))]
     \<and> (body = None \<longleftrightarrow> fetch_throws (fst (gw (world r) GET_data)))
     \<and> (body \<noteq> None \<longrightarrow> fst (gw (world r) GET_data) = Http True body)"
  by (cases "gw (world r) GET_data"; cases "fst (gw (world r) GET_data)")
     (auto simp: fetchProductionData_def fetch_def split: if_splits)

lemma sync_load_stopped:
  "sync_load gw local_file w = Inl (st, r) \<Longrightarrow>
     st = Exit1 \<and> (requests (trace r) = [] \<or> requests (trace r) = [GET_data])
     \<and> Print SettingsSyncNotImplemented \<notin> set (trace r)"
  by (auto simp: sync_load_def Let_def split: option.splits prod.splits
           dest!: fetchProductionData_effect)

lemma sync_load_loaded:
  "sync_load gw local_file w = Inr (localData, prodData, r1) \<Longrightarrow>
     trace r1 = [Fetch GET_data (fst (gw w GET_data))]"
  by (auto simp: sync_load_def Let_def split: option.splits prod.splits
           dest!: fetchProductionData_effect)

lemma sync_review_in_sync:
  "plan_empty (analyze localData prodData) \<Longrightarrow>
     sync_review gw autoConfirm answer localData prodData r1 = (Returned, say [AlreadyInSync] r1)"
  by (simp add: sync_review_def)

lemma sync_review_thrown:
  "\<not> plan_empty (analyze localData prodData) \<Longrightarrow> summary_throws localData prodData \<Longrightarrow>
     \<exists>ls. sync_review gw autoConfirm answer localData prodData r1
            = (Exit1, say [SyncFailed] (say ls r1))"
  by (auto simp: sync_review_def summary_throws_def Let_def split: prod.splits)

lemma sync_review_cancelled:
  "\<not> plan_empty (analyze localData prodData) \<Longrightarrow> \<not> summary_throws localData prodData \<Longrightarrow>
     \<not> sync_confirmed autoConfirm answer \<Longrightarrow>
     \<exists>ls. sync_review gw autoConfirm answer localData prodData r1
            = (Returned, say [SyncCancelled] (emit Ask (say ls r1)))"
  by (auto simp: sync_review_def summary_throws_def sync_confirmed_def Let_def split: prod.splits)

lemma sync_review_executes:
  "\<not> plan_empty (analyze localData prodData) \<Longrightarrow> \<not> summary_throws localData prodData \<Longrightarrow>
     sync_confirmed autoConfirm answer \<Longrightarrow>
     \<exists>r2 ext. sync_review gw autoConfirm answer localData prodData r1
              = (Returned, execute_plan gw (analyze localData prodData) r2)
       \<and> trace r2 = trace r1 @ ext \<and> requests ext = [] \<and> failures ext = 0"
proof -
  assume a: "\<not> plan_empty (analyze localData prodData)" "\<not> summary_throws localData prodData"
    "sync_confirmed autoConfirm answer"
  let ?pl = "analyze localData prodData"
  obtain ls thrown where ls: "(if settingsChanged ?pl
               then show_settings (settings localData) (settings prodData)
               else ([], False)) = (ls, thrown)"
    by (cases "if settingsChanged ?pl
               then show_settings (settings localData) (settings prodData)
               else ([], False)")
  with a(2) have nt: "\<not> thrown"
    by (auto simp: summary_throws_def split: if_splits)
  let ?r2 = "say (SyncSummary ?pl # ls) r1"
  show ?thesis
  proof (cases autoConfirm)
    case True
    then have "sync_review gw autoConfirm answer localData prodData r1
              = (Returned, execute_plan gw ?pl ?r2)"
      using a(1) ls nt by (simp add: sync_review_def Let_def)
    moreover have "trace ?r2 = trace r1 @ map Print (SyncSummary ?pl # ls)"
      by simp
    ultimately show ?thesis
      by (metis requests_Print failures_Print)
  next
    case False
    with a(3) have "\<not> sync_denied answer"
      by (simp add: sync_confirmed_def)
    with False have "sync_review gw autoConfirm answer localData prodData r1
              = (Returned, execute_plan gw ?pl (emit Ask ?r2))"
      using a(1) ls nt by (simp add: sync_review_def Let_def)
    moreover have "trace (emit Ask ?r2) = trace r1 @ (map Print (SyncSummary ?pl # ls) @ [Ask])"
      by simp
    moreover have "requests (map Print (SyncSummary ?pl # ls) @ [Ask]) = []"
      "failures (map Print (SyncSummary ?pl # ls) @ [Ask]) = 0"
      by simp_all
    ultimately show ?thesis
      by blast
  qed
qed

lemma wf_settings_shape:
  assumes "wf_settings s"
  obtains p m where "s = Some (JObj p)" "property p ''colorMap'' = Some (JObj m)"
proof -
  from assms obtain p where p: "s = Some (JObj p)"
    by (cases s; cases "the s") (simp_all add: wf_settings_def)
  with assms obtain m where "property p ''colorMap'' = Some (JObj m)"
    by (cases "property p ''colorMap''"; cases "the (property p ''colorMap'')")
       (simp_all add: wf_settings_def)
  with p show thesis
    by (rule that)
qed

lemma wf_settings_summary:
  assumes "wf_settings ls" "wf_settings ps"
  shows "\<not> snd (show_settings ls ps)"
proof -
  from assms(1) obtain p m where l: "ls = Some (JObj p)" "property p ''colorMap'' = Some (JObj m)"
    by (rule wf_settings_shape)
  from assms(2) obtain q n where p: "ps = Some (JObj q)" "property q ''colorMap'' = Some (JObj n)"
    by (rule wf_settings_shape)
  show ?thesis
    unfolding l(1) p(1)
    by (simp add: show_settings_def nullish_def member_def l(2) p(2) Let_def)
qed

lemma replace_execute_effect:
  "\<exists>ext d c f. trace (snd (replace_execute gw localData prodData r)) = trace r @ ext
     \<and> requests ext = map (\<lambda>p. DELETE_project (id_of p)) (projects prodData)
                       @ map POST_project (projects localData) @ [GET_data]
     \<and> Print SettingsSyncNotImplemented \<in> set ext
     \<and> Print (ReplacementComplete d c f) \<in> set ext
     \<and> d + c + f = length (projects prodData) + length (projects localData)
     \<and> f = failures ext"
proof -
  obtain d df r1 where del:
    "deleteAllProjects gw (projects prodData) (0, 0, say [StartingReplacement] r) = (d, df, r1)"
    by (metis prod_cases3)
  obtain c cf r2 where cre:
    "create_loop gw (projects localData) (0, 0, say [DeletionComplete d df] r1) = (c, cf, r2)"
    by (metis prod_cases3)
  let ?lines = "[CreationComplete c cf, SettingsSyncNotImplemented,
                 ReplacementComplete d c (df + cf)]"
  obtain finalData r3 where fin: "fetchProductionData gw (say ?lines r2) = (finalData, r3)"
    by (cases "fetchProductionData gw (say ?lines r2)")
  from deleteAllProjects_effect [OF del] obtain e1 where
    e1: "trace r1 = trace (say [StartingReplacement] r) @ e1"
      "requests e1 = map (\<lambda>p. DELETE_project (id_of p)) (projects prodData)"
      "d + df = 0 + 0 + length (projects prodData)" "df = 0 + failures e1"
    by blast
  from create_loop_effect [OF cre] obtain e2 where
    e2: "trace r2 = trace (say [DeletionComplete d df] r1) @ e2"
      "requests e2 = map POST_project (projects localData)"
      "c + cf = 0 + 0 + length (projects localData)" "cf = 0 + failures e2"
    by blast
  from fetchProductionData_effect [OF fin] obtain resp where
    e3: "trace r3 = trace (say ?lines r2) @ [Fetch GET_data resp]"
    by blast
  obtain l where res: "snd (replace_execute gw localData prodData r) = say [l] r3"
    using del cre fin
    by (cases "nullish finalData \<or> nullish (member finalData ''projects'')")
       (simp_all add: replace_execute_def createProjects_is_create_loop)
  let ?ext = "Print StartingReplacement # e1 @ Print (DeletionComplete d df) # e2
              @ map Print ?lines @ [Fetch GET_data resp, Print l]"
  have "trace (snd (replace_execute gw localData prodData r)) = trace r @ ?ext"
    using res e1(1) e2(1) e3 by simp
  moreover have "requests ?ext = map (\<lambda>p. DELETE_project (id_of p)) (projects prodData)
                       @ map POST_project (projects localData) @ [GET_data]"
    using e1(2) e2(2) by simp
  moreover have "Print SettingsSyncNotImplemented \<in> set ?ext"
    "Print (ReplacementComplete d c (df + cf)) \<in> set ?ext"
    by simp_all
  moreover have "d + c + (df + cf) = length (projects prodData) + length (projects localData)"
    using e1(3) e2(3) by simp
  moreover have "df + cf = failures ?ext"
    using e1(4) e2(4) by (simp add: is_mutation_def)
  ultimately show ?thesis
    by blast
qed

lemma replace_load_stopped:
  "replace_load gw backup_ok local_file w = Inl (st, r) \<Longrightarrow>
     st = Exit1 \<and> (requests (trace r) = [] \<or> requests (trace r) = [GET_data])"
  by (auto simp: replace_load_def Let_def split: option.splits prod.splits if_splits
           dest!: fetchProductionData_effect)

lemma replace_load_loaded:
  "replace_load gw backup_ok local_file w = Inr (localData, prodData, r2) \<Longrightarrow>
     backup_ok \<and> (\<exists>data. fst (gw w GET_data) = Http True (Some data)
       \<and> as_snapshot data = Some prodData
       \<and> trace r2 = [Fetch GET_data (Http True (Some data)), WriteBackup data, Print BackupSaved])"
  by (auto simp: replace_load_def Let_def split: option.splits prod.splits if_splits
           dest!: fetchProductionData_effect)

lemma replace_confirm_cancelled:
  "\<not> replace_confirmed autoConfirm answer1 answer2 \<Longrightarrow>
     \<exists>ext. replace_confirm gw autoConfirm answer1 answer2 localData prodData r2
             = (Returned, r2\<lparr>trace := trace r2 @ ext\<rparr>)
       \<and> requests ext = [] \<and> ext \<noteq> [] \<and> last ext = Print ReplacementCancelled"
proof -
  assume "\<not> replace_confirmed autoConfirm answer1 answer2"
  then have na: "\<not> autoConfirm" and d: "replace_denied1 answer1 \<or> replace_denied2 answer2"
    by (auto simp: replace_confirmed_def)
  let ?plan = "Print (ReplacementPlan (length (projects prodData)) (length (projects localData)))"
  show ?thesis
  proof (cases "replace_denied1 answer1")
    case True
    with na show ?thesis
      by (intro exI [of _ "[?plan, Ask, Print ReplacementCancelled]"])
         (simp add: replace_confirm_def say_def emit_def)
  next
    case False
    with na d show ?thesis
      by (intro exI [of _ "[?plan, Ask, Ask, Print ReplacementCancelled]"])
         (simp add: replace_confirm_def say_def emit_def)
  qed
qed

lemma replace_confirm_executes:
  "replace_confirmed autoConfirm answer1 answer2 \<Longrightarrow>
     \<exists>ext. replace_confirm gw autoConfirm answer1 answer2 localData prodData r2
             = replace_execute gw localData prodData (r2\<lparr>trace := trace r2 @ ext\<rparr>)
       \<and> requests ext = [] \<and> failures ext = 0"
proof -
  assume c: "replace_confirmed autoConfirm answer1 answer2"
  let ?plan = "Print (ReplacementPlan (length (projects prodData)) (length (projects localData)))"
  show ?thesis
  proof (cases autoConfirm)
    case True
    then show ?thesis
      by (intro exI [of _ "[?plan]"]) (simp add: replace_confirm_def say_def emit_def)
  next
    case False
    with c show ?thesis
      by (intro exI [of _ "[?plan, Ask, Ask]"])
         (simp add: replace_confirm_def replace_confirmed_def say_def emit_def)
  qed
qed

lemma all_before_append:
  "all_before P Q (xs @ ys)
     = (all_before P Q xs \<and> all_before P Q ys \<and> (list_ex Q xs \<longrightarrow> \<not> list_ex P ys))"
  by (induction xs) auto

lemma all_before_without:
  "\<not> list_ex P xs \<or> \<not> list_ex Q xs \<Longrightarrow> all_before P Q xs"
  by (induction xs) auto

lemma kinds_of_requests [simp]:
  "\<not> list_ex is_update (map POST_project cs)"
  "\<not> list_ex is_delete (map POST_project cs)"
  "\<not> list_ex is_settings_mutation (map POST_project cs)"
  "\<not> list_ex is_create (map (\<lambda>u. PUT_project (id_of (local u)) (local u)) us)"
  "\<not> list_ex is_delete (map (\<lambda>u. PUT_project (id_of (local u)) (local u)) us)"
  "\<not> list_ex is_settings_mutation (map (\<lambda>u. PUT_project (id_of (local u)) (local u)) us)"
  "\<not> list_ex is_create (map (\<lambda>p. DELETE_project (id_of p)) ds)"
  "\<not> list_ex is_update (map (\<lambda>p. DELETE_project (id_of p)) ds)"
  "\<not> list_ex is_settings_mutation (map (\<lambda>p. DELETE_project (id_of p)) ds)"
  by (simp_all add: list_ex_iff)

lemma filter_mutations [simp]:
  "filter is_mutation (map POST_project cs) = map POST_project cs"
  "filter is_mutation (map (\<lambda>u. PUT_project (id_of (local u)) (local u)) us)
     = map (\<lambda>u. PUT_project (id_of (local u)) (local u)) us"
  "filter is_mutation (map (\<lambda>p. DELETE_project (id_of p)) ds)
     = map (\<lambda>p. DELETE_project (id_of p)) ds"
  by (simp_all add: is_mutation_def filter_map comp_def)

text \<open>The requests of a whole run of \<open>syncData\<close>.\<close>

lemma syncData_requests:
  "requests (trace (snd (syncData gw autoConfirm answer local_file w)))
     = (case sync_load gw local_file w of
          Inl (st, r) \<Rightarrow> requests (trace r)
        | Inr (localData, prodData, r1) \<Rightarrow>
            GET_data #
            (if \<not> plan_empty (analyze localData prodData) \<and> \<not> summary_throws localData prodData
                \<and> sync_confirmed autoConfirm answer
             then create_requests (analyze localData prodData)
                  @ update_requests (analyze localData prodData)
                  @ delete_requests (analyze localData prodData)
             else []))"
proof (cases "sync_load gw local_file w")
  case (Inl stopped)
  then show ?thesis
    by (cases stopped) (simp add: syncData_def)
next
  case (Inr loaded)
  obtain localData prodData r1 where l: "loaded = (localData, prodData, r1)"
    by (metis prod_cases3)
  with Inr have first: "trace r1 = [Fetch GET_data (fst (gw w GET_data))]"
    by (simp add: sync_load_loaded)
  let ?pl = "analyze localData prodData"
  have run: "syncData gw autoConfirm answer local_file w
               = sync_review gw autoConfirm answer localData prodData r1"
    using Inr l by (simp add: syncData_def)
  consider (in_sync) "plan_empty ?pl"
    | (thrown) "\<not> plan_empty ?pl" "summary_throws localData prodData"
    | (cancelled) "\<not> plan_empty ?pl" "\<not> summary_throws localData prodData"
        "\<not> sync_confirmed autoConfirm answer"
    | (executed) "\<not> plan_empty ?pl" "\<not> summary_throws localData prodData"
        "sync_confirmed autoConfirm answer"
    by blast
  then show ?thesis
  proof cases
    case in_sync
    then show ?thesis
      using Inr l run first by (simp add: sync_review_in_sync)
  next
    case thrown
    from sync_review_thrown [OF this] obtain ls where
      "sync_review gw autoConfirm answer localData prodData r1 = (Exit1, say [SyncFailed] (say ls r1))"
      by blast
    then show ?thesis
      using Inr l run first thrown by simp
  next
    case cancelled
    from sync_review_cancelled [OF this] obtain ls where
      "sync_review gw autoConfirm answer localData prodData r1
         = (Returned, say [SyncCancelled] (emit Ask (say ls r1)))"
      by blast
    then show ?thesis
      using Inr l run first cancelled by simp
  next
    case executed
    from sync_review_executes [OF this] obtain r2 ext where
      r2: "sync_review gw autoConfirm answer localData prodData r1
             = (Returned, execute_plan gw ?pl r2)"
        "trace r2 = trace r1 @ ext" "requests ext = []"
      by blast
    from execute_plan_effect [of gw ?pl r2] obtain ext' s f where
      "trace (execute_plan gw ?pl r2) = trace r2 @ ext' @ [Print (SyncComplete s f)]"
      "requests ext' = create_requests ?pl @ update_requests ?pl @ delete_requests ?pl"
      by blast
    then show ?thesis
      using Inr l run first executed r2 by simp
  qed
qed

text \<open>The requests of a whole run of \<open>replaceProduction\<close>.\<close>

lemma replaceProduction_requests:
  "requests (trace (snd (replaceProduction gw autoConfirm answer1 answer2 backup_ok local_file w)))
     = (case replace_load gw backup_ok local_file w of
          Inl (st, r) \<Rightarrow> requests (trace r)
        | Inr (localData, prodData, r2) \<Rightarrow>
            GET_data #
            (if replace_confirmed autoConfirm answer1 answer2
             then map (\<lambda>p. DELETE_project (id_of p)) (projects prodData)
                  @ map POST_project (projects localData) @ [GET_data]
             else []))"
proof (cases "replace_load gw backup_ok local_file w")
  case (Inl stopped)
  then show ?thesis
    by (cases stopped) (simp add: replaceProduction_def)
next
  case (Inr loaded)
  obtain localData prodData r2 where l: "loaded = (localData, prodData, r2)"
    by (metis prod_cases3)
  with Inr have first: "requests (trace r2) = [GET_data]"
    by (auto dest!: replace_load_loaded)
  have run: "replaceProduction gw autoConfirm answer1 answer2 backup_ok local_file w
               = replace_confirm gw autoConfirm answer1 answer2 localData prodData r2"
    using Inr l by (simp add: replaceProduction_def)
  show ?thesis
  proof (cases "replace_confirmed autoConfirm answer1 answer2")
    case True
    from replace_confirm_executes [OF this] obtain ext where
      e: "replace_confirm gw autoConfirm answer1 answer2 localData prodData r2
            = replace_execute gw localData prodData (r2\<lparr>trace := trace r2 @ ext\<rparr>)"
        "requests ext = []"
      by blast
    from replace_execute_effect [of gw localData prodData "r2\<lparr>trace := trace r2 @ ext\<rparr>"]
    obtain ext' where
      "trace (snd (replace_execute gw localData prodData (r2\<lparr>trace := trace r2 @ ext\<rparr>)))
         = trace (r2\<lparr>trace := trace r2 @ ext\<rparr>) @ ext'"
      "requests ext' = map (\<lambda>p. DELETE_project (id_of p)) (projects prodData)
                       @ map POST_project (projects localData) @ [GET_data]"
      by blast
    then show ?thesis
      using Inr l run first True e by simp
  next
    case False
    from replace_confirm_cancelled [OF this] obtain ext where
      "replace_confirm gw autoConfirm answer1 answer2 localData prodData r2
             = (Returned, r2\<lparr>trace := trace r2 @ ext\<rparr>)" "requests ext = []"
      by blast
    then show ?thesis
      using Inr l run first False by simp
  qed
qed

lemma those_as_obj [simp]: "those (map (as_obj \<circ> JObj) ps) = Some ps"
  by (induction ps) simp_all

lemma as_snapshot_document_of [simp]: "as_snapshot (document_of s) = Some s"
  by (cases s; cases "settings s") (simp_all add: as_snapshot_def document_of_def property_def)

lemma sync_load_documents:
  assumes "fst (gw w GET_data) = Http True (Some (document_of prodData))"
  shows "sync_load gw (Some (Some (document_of localData))) w
           = Inr (localData, prodData,
                  \<lparr>world = snd (gw w GET_data),
                   trace = [Fetch GET_data (Http True (Some (document_of prodData)))]\<rparr>)"
  using assms
  by (cases "gw w GET_data") (simp add: sync_load_def fetchProductionData_def fetch_def)

lemma replace_load_documents:
  assumes "fst (gw w GET_data) = Http True (Some (document_of prodData))"
  shows "replace_load gw True (Some (Some (document_of localData))) w
           = Inr (localData, prodData,
                  \<lparr>world = snd (gw w GET_data),
                   trace = [Fetch GET_data (Http True (Some (document_of prodData))),
                            WriteBackup (document_of prodData), Print BackupSaved]\<rparr>)"
  using assms
  by (cases "gw w GET_data")
     (simp add: replace_load_def fetchProductionData_def fetch_def say_def emit_def)

lemma phases_in_order:
  assumes "\<not> list_ex is_create pre" "\<not> list_ex is_update pre" "\<not> list_ex is_delete pre"
  shows "all_before is_create is_update (pre @ create_requests pl @ update_requests pl @ delete_requests pl)"
    and "all_before is_update is_delete (pre @ create_requests pl @ update_requests pl @ delete_requests pl)"
    and "all_before is_create is_delete (pre @ create_requests pl @ update_requests pl @ delete_requests pl)"
  using assms
  by (simp_all add: all_before_append all_before_without create_requests_def
        update_requests_def delete_requests_def)

section \<open>What \<open>JSON.stringify\<close> tells apart\<close>

text \<open>
  First the text of a value whose objects are written in the order of their lists
  (\<open>plain\<close>): it tells any two values apart.  Then \<open>stringify\<close>, which is \<open>plain\<close> of the
  value with its properties in enumeration order.
\<close>

lemma digit_char_inj:
  assumes "a < 16" "b < 16" "digit_char a = digit_char b"
  shows "a = b"
proof -
  have d: "distinct ''0123456789abcdef''"
    by simp
  have l: "length ''0123456789abcdef'' = 16"
    by simp
  from assms nth_eq_iff_index_eq [OF d, of a b] l show ?thesis
    by (simp only: digit_char_def)
qed

lemma digit_char_is_digit:
  assumes "d < 10"
  shows "is_digit (digit_char d)"
proof -
  have "''0123456789abcdef'' = ''0123456789'' @ ''abcdef''"
    by simp
  then have "digit_char d = ''0123456789'' ! d"
    using assms unfolding digit_char_def by (simp only: nth_append) simp
  moreover have "d < length ''0123456789''"
    using assms by simp
  ultimately show ?thesis
    unfolding is_digit_def by (simp only: nth_mem)
qed

text \<open>A run of characters of one kind is cut off where the text goes on with another kind.\<close>

lemma run_unique:
  assumes "xs @ r = ys @ r'"
    and "\<forall>c \<in> set xs. D c" "\<forall>c \<in> set ys. D c"
    and "r = [] \<or> \<not> D (hd r)" "r' = [] \<or> \<not> D (hd r')"
  shows "xs = ys \<and> r = r'"
proof -
  have cut: "takeWhile D (zs @ t) = zs" if "\<forall>c \<in> set zs. D c" "t = [] \<or> \<not> D (hd t)" for zs t
    using that by (cases t) (simp_all add: takeWhile_append2)
  have "xs = takeWhile D (xs @ r)"
    using assms(2,4) by (simp only: cut)
  also have "\<dots> = takeWhile D (ys @ r')"
    using assms(1) by simp
  also have "\<dots> = ys"
    using assms(3,5) by (simp only: cut)
  finally have "xs = ys" .
  with assms(1) show ?thesis
    by simp
qed

lemma show_nat_digits: "\<forall>c \<in> set (show_nat n). is_digit c"
proof (induction n rule: show_nat.induct)
  case (1 n)
  show ?case
  proof (cases "n < 10")
    case True
    then show ?thesis
      by (subst show_nat.simps) (simp add: digit_char_is_digit)
  next
    case False
    with 1 show ?thesis
      by (subst show_nat.simps) (simp add: digit_char_is_digit)
  qed
qed

lemma show_nat_nonempty: "show_nat n \<noteq> []"
  by (subst show_nat.simps) simp

lemma show_nat_length: "length (show_nat n) = 1 \<longleftrightarrow> n < 10"
  by (subst show_nat.simps) (simp add: show_nat_nonempty)

lemma show_nat_inj: "show_nat n = show_nat m \<Longrightarrow> n = m"
proof (induction n arbitrary: m rule: show_nat.induct)
  case (1 n)
  show ?case
  proof (cases "n < 10")
    case True
    with "1.prems" have m: "m < 10"
      by (metis show_nat_length)
    from True have "show_nat n = [digit_char n]"
      by (subst show_nat.simps) simp
    moreover from m have "show_nat m = [digit_char m]"
      by (subst show_nat.simps) simp
    ultimately have "digit_char n = digit_char m"
      using "1.prems" by simp
    with True m show ?thesis
      by (intro digit_char_inj) simp_all
  next
    case False
    with "1.prems" have m: "\<not> m < 10"
      by (metis show_nat_length)
    from False have n': "show_nat n = show_nat (n div 10) @ [digit_char (n mod 10)]"
      by (subst show_nat.simps) simp
    from m have m': "show_nat m = show_nat (m div 10) @ [digit_char (m mod 10)]"
      by (subst show_nat.simps) simp
    from n' m' "1.prems" have parts: "show_nat (n div 10) = show_nat (m div 10)"
      "digit_char (n mod 10) = digit_char (m mod 10)"
      by simp_all
    from "1.IH" [OF False parts(1)] have "n div 10 = m div 10" .
    moreover from parts(2) have "n mod 10 = m mod 10"
      by (intro digit_char_inj) simp_all
    ultimately show ?thesis
      by (metis div_mult_mod_eq)
  qed
qed

lemma show_int_inj:
  assumes "show_int i @ r = show_int j @ r'" "delimited r" "delimited r'"
  shows "i = j \<and> r = r'"
proof -
  have hd_r: "r = [] \<or> \<not> is_digit (hd r)" "r' = [] \<or> \<not> is_digit (hd r')"
    using assms(2,3) by (auto simp: delimited_def split: list.splits)
  have minus: "\<not> is_digit CHR ''-''"
    by (simp add: is_digit_def)
  have first: "is_digit (hd (show_nat n))" for n
    using show_nat_digits [of n] show_nat_nonempty [of n] by (cases "show_nat n") simp_all
  have nat_case: "n = m \<and> r = r'" if "show_nat n @ r = show_nat m @ r'" for n m
    using run_unique [OF that show_nat_digits show_nat_digits hd_r] show_nat_inj by blast
  show ?thesis
  proof (cases "i < 0")
    case True
    note i = this
    show ?thesis
    proof (cases "j < 0")
      case True
      with i assms(1) have "show_nat (nat (- i)) @ r = show_nat (nat (- j)) @ r'"
        by (simp add: show_int_def)
      from nat_case [OF this] i True show ?thesis
        by arith
    next
      case False
      with i assms(1) have "CHR ''-'' # show_nat (nat (- i)) @ r = show_nat (nat j) @ r'"
        by (simp add: show_int_def)
      then have "CHR ''-'' = hd (show_nat (nat j))"
        using show_nat_nonempty [of "nat j"] by (cases "show_nat (nat j)") simp_all
      with first [of "nat j"] minus show ?thesis
        by simp
    qed
  next
    case False
    note i = this
    show ?thesis
    proof (cases "j < 0")
      case True
      with i assms(1) have "show_nat (nat i) @ r = CHR ''-'' # show_nat (nat (- j)) @ r'"
        by (simp add: show_int_def)
      then have "CHR ''-'' = hd (show_nat (nat i))"
        using show_nat_nonempty [of "nat i"] by (cases "show_nat (nat i)") simp_all
      with first [of "nat i"] minus show ?thesis
        by simp
    next
      case False
      with i assms(1) have "show_nat (nat i) @ r = show_nat (nat j) @ r'"
        by (simp add: show_int_def)
      from nat_case [OF this] i False show ?thesis
        by arith
    qed
  qed
qed

lemma control_char_inj:
  assumes "(of_char c :: nat) < 32" "(of_char d :: nat) < 32"
    and "digit_char (of_char c div 16) = digit_char (of_char d div 16)"
    and "digit_char (of_char c mod 16) = digit_char (of_char d mod 16)"
  shows "c = d"
proof -
  have "(of_char c :: nat) div 16 = of_char d div 16"
    using assms(1,2) by (intro digit_char_inj [OF _ _ assms(3)]) simp_all
  moreover have "(of_char c :: nat) mod 16 = of_char d mod 16"
    by (intro digit_char_inj [OF _ _ assms(4)]) simp_all
  ultimately have "(of_char c :: nat) = of_char d"
    by (metis div_mult_mod_eq)
  then show ?thesis
    by simp
qed

lemma quote_char_start: "quote_char c \<noteq> [] \<and> hd (quote_char c) \<noteq> CHR 0x22"
  by (simp add: quote_char_def)

lemma quote_char_prefix:
  assumes "quote_char c @ X = quote_char d @ Y"
  shows "c = d \<and> X = Y"
  using assms control_char_inj [of c d]
  by (auto simp: quote_char_def split: if_splits)

lemma quoted_body_inj:
  "concat (map quote_char s) @ CHR 0x22 # r = concat (map quote_char t) @ CHR 0x22 # r'
     \<Longrightarrow> s = t \<and> r = r'"
proof (induction s arbitrary: t)
  case Nil
  show ?case
  proof (cases t)
    case Nil
    with Nil.prems show ?thesis by simp
  next
    case (Cons d t')
    with Nil.prems have "hd (quote_char d @ concat (map quote_char t') @ CHR 0x22 # r') = CHR 0x22"
      by (metis append.assoc concat.simps(2) list.map(2) list.sel(1) append_Nil concat.simps(1)
          list.map(1))
    then show ?thesis
      using quote_char_start [of d] by (cases "quote_char d") simp_all
  qed
next
  case (Cons c s')
  show ?case
  proof (cases t)
    case Nil
    with Cons.prems have "hd (quote_char c @ concat (map quote_char s') @ CHR 0x22 # r) = CHR 0x22"
      by simp
    then show ?thesis
      using quote_char_start [of c] by (cases "quote_char c") simp_all
  next
    case (Cons d t')
    with Cons.prems have "quote_char c @ (concat (map quote_char s') @ CHR 0x22 # r)
        = quote_char d @ (concat (map quote_char t') @ CHR 0x22 # r')"
      by simp
    from quote_char_prefix [OF this] Cons.IH [of t'] Cons show ?thesis
      by simp
  qed
qed

lemma quote_inj: "quote s @ r = quote t @ r' \<Longrightarrow> s = t \<and> r = r'"
  using quoted_body_inj [of s r t r'] by (simp add: quote_def)

text \<open>The first character of the text of a value shows its constructor.\<close>

lemma digit_class: "is_digit c \<Longrightarrow> start_class c = 2"
  by (auto simp: start_class_def is_digit_def)

lemma show_int_start: "show_int i \<noteq> [] \<and> start_class (hd (show_int i)) = 2"
proof -
  have "start_class (hd (show_nat n)) = 2" for n
    using show_nat_digits [of n] show_nat_nonempty [of n]
    by (cases "show_nat n") (simp_all add: digit_class)
  moreover have "start_class CHR ''-'' = 2"
    by (simp add: start_class_def)
  ultimately show ?thesis
    by (simp add: show_int_def show_nat_nonempty)
qed

lemma plain_start: "plain a \<noteq> [] \<and> start_class (hd (plain a)) = tag a"
proof (cases a)
  case (JNum n)
  then show ?thesis
    using show_int_start [of n] by simp
qed (simp_all add: start_class_def is_digit_def quote_def)

lemma plain_tag:
  assumes "plain a @ r = plain b @ r'"
  shows "tag a = tag b"
proof -
  have "hd (plain a @ r) = hd (plain a)" "hd (plain b @ r') = hd (plain b)"
    using plain_start [of a] plain_start [of b] by simp_all
  with assms plain_start [of a] plain_start [of b] show ?thesis
    by metis
qed

lemma commas_following: "commas (x # xs) = x @ following xs"
  by (induction xs arbitrary: x) (simp_all add: following_def)

lemma delimited_following:
  "\<not> is_digit close \<Longrightarrow> delimited (following zs @ close # r)"
  by (cases zs) (simp_all add: following_def delimited_def is_digit_def)

lemma following_inj:
  fixes f :: "'a \<Rightarrow> string"
  assumes elems: "\<And>x y r r'. x \<in> set xs \<Longrightarrow> delimited r \<Longrightarrow> delimited r' \<Longrightarrow>
                    f x @ r = f y @ r' \<Longrightarrow> x = y \<and> r = r'"
    and close: "close \<noteq> CHR '',''" "\<not> is_digit close"
    and eq: "following (map f xs) @ close # r = following (map f ys) @ close # r'"
  shows "xs = ys \<and> r = r'"
  using elems eq
proof (induction xs arbitrary: ys)
  case Nil
  with close(1) show ?case
    by (cases ys) (simp_all add: following_def)
next
  case (Cons x xs)
  show ?case
  proof (cases ys)
    case Nil
    with Cons.prems(2) close(1) show ?thesis
      by (simp add: following_def)
  next
    case (Cons y ys')
    with Cons.prems(2) have
      "f x @ (following (map f xs) @ close # r) = f y @ (following (map f ys') @ close # r')"
      by (simp add: following_def)
    from Cons.prems(1) [OF _ delimited_following [OF close(2)] delimited_following [OF close(2)] this]
    have head: "x = y" and rest: "following (map f xs) @ close # r = following (map f ys') @ close # r'"
      by simp_all
    have "xs = ys' \<and> r = r'"
      by (rule Cons.IH [OF Cons.prems(1) rest]) simp_all
    with head Cons show ?thesis
      by simp
  qed
qed

lemma commas_inj:
  fixes f :: "'a \<Rightarrow> string"
  assumes elems: "\<And>x y r r'. x \<in> set xs \<Longrightarrow> delimited r \<Longrightarrow> delimited r' \<Longrightarrow>
                    f x @ r = f y @ r' \<Longrightarrow> x = y \<and> r = r'"
    and starts: "\<And>y. f y \<noteq> [] \<and> hd (f y) \<noteq> close"
    and close: "close \<noteq> CHR '',''" "\<not> is_digit close"
    and eq: "commas (map f xs) @ close # r = commas (map f ys) @ close # r'"
  shows "xs = ys \<and> r = r'"
proof (cases xs)
  case Nil
  show ?thesis
  proof (cases ys)
    case Nil
    with \<open>xs = []\<close> eq show ?thesis by simp
  next
    case (Cons y ys')
    with \<open>xs = []\<close> eq have "close # r = f y @ following (map f ys') @ close # r'"
      by (simp add: commas_following)
    from arg_cong [OF this, of hd] have "hd (f y @ following (map f ys') @ close # r') = close"
      by simp
    with starts [of y] show ?thesis
      by (cases "f y") simp_all
  qed
next
  case (Cons x xs')
  show ?thesis
  proof (cases ys)
    case Nil
    with Cons eq have "f x @ following (map f xs') @ close # r = close # r'"
      by (simp add: commas_following)
    from arg_cong [OF this, of hd] have "hd (f x @ following (map f xs') @ close # r) = close"
      by simp
    with starts [of x] show ?thesis
      by (cases "f x") simp_all
  next
    case ys: (Cons y ys')
    with Cons eq have
      "f x @ (following (map f xs') @ close # r) = f y @ (following (map f ys') @ close # r')"
      by (simp add: commas_following)
    from elems [OF _ delimited_following [OF close(2)] delimited_following [OF close(2)] this] Cons
    have head: "x = y" and rest: "following (map f xs') @ close # r = following (map f ys') @ close # r'"
      by simp_all
    have "xs' = ys' \<and> r = r'"
      by (rule following_inj [OF elems close rest]) (simp_all add: Cons)
    with head Cons ys show ?thesis
      by simp
  qed
qed

lemma plain_prefix_inj:
  "delimited r \<Longrightarrow> delimited r' \<Longrightarrow> plain a @ r = plain b @ r' \<Longrightarrow> a = b \<and> r = r'"
proof (induction a arbitrary: b r r' rule: plain.induct)
  case 1
  from plain_tag [OF "1.prems"(3)] "1.prems"(3) show ?case
    by (cases b) simp_all
next
  case (2 v)
  from plain_tag [OF "2.prems"(3)] "2.prems"(3) show ?case
    by (cases b) (auto split: if_splits)
next
  case (3 n)
  from plain_tag [OF "3.prems"(3)] obtain m where "b = JNum m"
    by (cases b) simp_all
  with "3.prems" show ?case
    using show_int_inj [of n r m r'] by simp
next
  case (4 s)
  from plain_tag [OF "4.prems"(3)] obtain t where "b = JStr t"
    by (cases b) simp_all
  with "4.prems" show ?case
    using quote_inj [of s r t r'] by simp
next
  case (5 xs)
  from plain_tag [OF "5.prems"(3)] obtain ys where b: "b = JArr ys"
    by (cases b) simp_all
  with "5.prems"(3) have eq:
    "commas (map plain xs) @ CHR '']'' # r = commas (map plain ys) @ CHR '']'' # r'"
    by simp
  have starts: "plain y \<noteq> [] \<and> hd (plain y) \<noteq> CHR '']''" for y
    using plain_start [of y] by (cases y) (auto simp: start_class_def is_digit_def)
  have "xs = ys \<and> r = r'"
    using "5.IH" by (intro commas_inj [OF _ starts _ _ eq]) (simp_all add: is_digit_def)
  with b show ?case
    by simp
next
  case (6 kvs)
  from plain_tag [OF "6.prems"(3)] obtain kws where b: "b = JObj kws"
    by (cases b) simp_all
  let ?f = "\<lambda>(k, v). quote k @ CHR '':'' # plain v"
  from b "6.prems"(3) have eq:
    "commas (map ?f kvs) @ CHR ''}'' # r = commas (map ?f kws) @ CHR ''}'' # r'"
    by simp
  have starts: "?f y \<noteq> [] \<and> hd (?f y) \<noteq> CHR ''}''" for y
    by (cases y) (simp add: quote_def)
  have elems: "x = y \<and> t = t'"
    if "x \<in> set kvs" "delimited t" "delimited t'" "?f x @ t = ?f y @ t'" for x y t t'
  proof -
    obtain k v where x: "x = (k, v)" by (cases x)
    obtain k' w where y: "y = (k', w)" by (cases y)
    from that(4) x y have "quote k @ (CHR '':'' # plain v @ t) = quote k' @ (CHR '':'' # plain w @ t')"
      by simp
    from quote_inj [OF this] have k: "k = k'" and "plain v @ t = plain w @ t'"
      by simp_all
    from "6.IH" [OF that(1) x [symmetric] that(2,3) this(2)] k x y show ?thesis
      by simp
  qed
  have "kvs = kws \<and> r = r'"
    using elems by (intro commas_inj [OF _ starts _ _ eq]) (simp_all add: is_digit_def)
  with b show ?case
    by simp
qed

lemma plain_inj: "plain a = plain b \<longleftrightarrow> a = b"
  using plain_prefix_inj [of "[]" "[]" a b] by (auto simp: delimited_def)

subsection \<open>Enumeration order\<close>

lemma array_index_text: "array_index k = Some n \<Longrightarrow> k = show_nat n"
  by (simp add: array_index_def split: if_splits)

lemma array_index_not_digits: "\<not> list_all is_digit k \<Longrightarrow> array_index k = None"
  by (simp add: array_index_def)

lemma set_enumeration: "set (enumeration kvs) = set kvs"
  by (auto simp: enumeration_def)

lemma enumeration_named:
  "\<forall>p \<in> set kvs. array_index (fst p) = None \<Longrightarrow> enumeration kvs = kvs"
proof -
  assume named: "\<forall>p \<in> set kvs. array_index (fst p) = None"
  then have "filter (\<lambda>p. array_index (fst p) \<noteq> None) kvs = []"
    by (simp add: filter_empty_conv)
  moreover from named have "filter (\<lambda>p. array_index (fst p) = None) kvs = kvs"
    by (simp add: filter_id_conv)
  ultimately show ?thesis
    by (simp add: enumeration_def)
qed

lemma insort_key_map_commute:
  assumes "\<And>x. f (g x) = f' x"
  shows "insort_key f (g x) (map g ys) = map g (insort_key f' x ys)"
  by (induction ys) (simp_all add: assms)

lemma sort_key_map_commute:
  assumes "\<And>x. f (g x) = f' x"
  shows "sort_key f (map g xs) = map g (sort_key f' xs)"
  by (induction xs)
    (simp_all add: insort_key_map_commute [where f = f and g = g and f' = f', OF assms])

lemma enumeration_map:
  "enumeration (map (\<lambda>(k, v). (k, h v)) kvs) = map (\<lambda>(k, v). (k, h v)) (enumeration kvs)"
proof -
  let ?g = "\<lambda>(k, v). (k, h v)"
  have key: "fst (?g p) = fst p" for p
    by (cases p) simp
  have idx: "index_of (?g p) = index_of p" for p
    by (simp add: index_of_def key)
  have "sort_key index_of (map ?g xs) = map ?g (sort_key index_of xs)" for xs
    by (rule sort_key_map_commute) (rule idx)
  then show ?thesis
    by (simp add: enumeration_def filter_map o_def key)
qed

lemma map_of_filter_key:
  "map_of (filter (\<lambda>p. Q (fst p)) kvs) k = (if Q k then map_of kvs k else None)"
  by (induction kvs) auto

lemma map_of_sort_key:
  assumes "\<forall>p \<in> set xs. \<forall>q \<in> set xs. f p = f q \<longleftrightarrow> fst p = fst q"
  shows "map_of (sort_key f xs) k = map_of xs k"
proof (cases "k \<in> fst ` set xs")
  case False
  then have "map_of xs k = None" "map_of (sort_key f xs) k = None"
    by (simp_all add: map_of_eq_None_iff)
  then show ?thesis
    by simp
next
  case True
  then obtain p where p: "p \<in> set xs" "fst p = k"
    by auto
  have same: "filter (\<lambda>q. fst q = k) ys = filter (\<lambda>q. f q = f p) ys" if "set ys = set xs" for ys
    using assms p that by (intro filter_cong) auto
  have pick: "map_of ys k = map_of (filter (\<lambda>q. fst q = k) ys) k" for ys :: "('a \<times> 'b) list"
    using map_of_filter_key [of "\<lambda>k'. k' = k" ys k] by simp
  have "map_of (sort_key f xs) k = map_of (filter (\<lambda>q. f q = f p) (sort_key f xs)) k"
    using pick [of "sort_key f xs"] same [of "sort_key f xs"] by simp
  also have "\<dots> = map_of (filter (\<lambda>q. f q = f p) xs) k"
    by (simp only: sort_key_stable)
  also have "\<dots> = map_of xs k"
    using pick [of xs] same [of xs] by simp
  finally show ?thesis .
qed

text \<open>Enumeration reorders the properties of an object and leaves the object the same.\<close>

lemma map_of_enumeration: "map_of (enumeration kvs) k = map_of kvs k"
proof -
  let ?I = "filter (\<lambda>p. array_index (fst p) \<noteq> None) kvs"
  let ?N = "filter (\<lambda>p. array_index (fst p) = None) kvs"
  have "f p = f q \<longleftrightarrow> fst p = fst q"
    if "p \<in> set ?I" "q \<in> set ?I" "f = (index_of :: string \<times> 'a \<Rightarrow> nat)" for p q f
  proof -
    from that obtain n m where n: "array_index (fst p) = Some n" and m: "array_index (fst q) = Some m"
      by auto
    have "fst p = fst q \<longleftrightarrow> n = m"
    proof
      assume "fst p = fst q"
      with n m show "n = m"
        by simp
    next
      assume "n = m"
      with array_index_text [OF n] array_index_text [OF m] show "fst p = fst q"
        by simp
    qed
    moreover have "index_of p = n" "index_of q = m"
      using n m by (simp_all add: index_of_def)
    ultimately show ?thesis
      using that(3) by simp
  qed
  then have sorted: "map_of (sort_key index_of ?I) k = map_of ?I k"
    by (intro map_of_sort_key) simp
  have "map_of (enumeration kvs) k = (map_of ?N ++ map_of (sort_key index_of ?I)) k"
    by (simp add: enumeration_def)
  also have "\<dots> = (map_of ?N ++ map_of ?I) k"
    using sorted by (simp add: map_add_def)
  also have "\<dots> = map_of kvs k"
    using map_of_filter_key [of "\<lambda>k. array_index k \<noteq> None" kvs k]
      map_of_filter_key [of "\<lambda>k. array_index k = None" kvs k]
    by (simp add: map_add_def split: option.splits)
  finally show ?thesis .
qed

subsection \<open>The text of a value\<close>

lemma stringify_plain: "stringify a = plain (enumerated a)"
proof (induction a rule: plain.induct)
  case (5 xs)
  then show ?case
    by (simp add: o_def cong: map_cong)
next
  case (6 kvs)
  have "map (\<lambda>(k, v). (k, stringify v)) kvs
          = map (\<lambda>(k, v). (k, plain v)) (map (\<lambda>(k, v). (k, enumerated v)) kvs)"
    using "6.IH" by auto
  then show ?case
    by (simp only: stringify.simps enumerated.simps plain.simps enumeration_map)
      (simp add: o_def case_prod_beta)
qed simp_all

text \<open>
  Two values have the same text exactly when they are the same tree once the properties of
  every object are put in enumeration order.
\<close>

lemma stringify_eq: "stringify a = stringify b \<longleftrightarrow> enumerated a = enumerated b"
  by (simp add: stringify_plain plain_inj)

lemma deepEqual_iff: "deepEqual x y \<longleftrightarrow> map_option enumerated x = map_option enumerated y"
  by (cases x; cases y) (simp_all add: deepEqual_def JSON_stringify_def stringify_eq)

lemma deepEqual_same: "deepEqual x x"
  by (simp add: deepEqual_def)

lemmas enumeration_eval = enumeration_def array_index_def is_digit_def

lemma struct_eq_refl: "struct_eq a a"
proof (induction a rule: plain.induct)
  case (5 xs)
  then show ?case
    by (simp add: list_all2_same)
next
  case (6 kvs)
  have "struct_eq v w"
    if "(k, v) \<in> set kvs" "map_of kvs k = Some v" "map_of kvs k = Some w" for k v w
  proof -
    from that(2,3) have "v = w"
      by simp
    with "6.IH" [OF that(1)] show ?thesis
      by simp
  qed
  then show ?case
    by auto
qed simp_all

text \<open>Values with the same text are structurally equal.\<close>

lemma enumerated_struct_eq: "enumerated a = enumerated b \<Longrightarrow> struct_eq a b"
proof (induction a arbitrary: b rule: plain.induct)
  case (5 xs)
  from "5.prems" obtain ys where b: "b = JArr ys" and eq: "map enumerated xs = map enumerated ys"
    by (cases b) auto
  from eq have len: "length xs = length ys"
    using map_eq_imp_length_eq by blast
  have "struct_eq (xs ! i) (ys ! i)" if "i < length xs" for i
  proof -
    from eq that len have "enumerated (xs ! i) = enumerated (ys ! i)"
      by (metis nth_map)
    with "5.IH" [of "xs ! i" "ys ! i"] that show ?thesis
      by simp
  qed
  with len b show ?case
    by (simp add: list_all2_conv_all_nth)
next
  case (6 ps)
  let ?E = "\<lambda>(k, v). (k, enumerated v)"
  from "6.prems" obtain qs where b: "b = JObj qs"
    and eq: "enumeration (map ?E ps) = enumeration (map ?E qs)"
    by (cases b) auto
  have "set (enumeration (map ?E ps)) = set (enumeration (map ?E qs))"
    using eq by (rule arg_cong)
  then have "set (map ?E ps) = set (map ?E qs)"
    by (simp only: set_enumeration)
  then have "fst ` set (map ?E ps) = fst ` set (map ?E qs)"
    by (rule arg_cong)
  then have "set (map fst (map ?E ps)) = set (map fst (map ?E qs))"
    by (simp only: set_map)
  moreover have "map fst (map ?E rs) = map fst rs" for rs
    by (induction rs) auto
  ultimately have "set (map fst ps) = set (map fst qs)"
    by metis
  then have keys: "fst ` set ps = fst ` set qs"
    by (simp only: set_map)
  have look: "map_of (map ?E rs) k = map_option enumerated (map_of rs k)" for rs k
    by (induction rs) auto
  have vals: "struct_eq v w"
    if "(k, v) \<in> set ps" "map_of ps k = Some v" "map_of qs k = Some w" for k v w
  proof -
    have "map_of (map ?E ps) k = map_of (map ?E qs) k"
      using eq map_of_enumeration [of "map ?E ps" k] map_of_enumeration [of "map ?E qs" k]
      by simp
    with that(2,3) have "enumerated v = enumerated w"
      by (simp add: look)
    with "6.IH" [OF that(1)] show ?thesis
      by simp
  qed
  show ?case
    unfolding b struct_eq.simps
  proof (intro conjI)
    show "fst ` set ps = fst ` set qs"
      by (rule keys)
    show "\<forall>(k, v) \<in> set ps. \<forall>(k', w) \<in> set qs.
            k = k' \<and> map_of ps k = Some v \<and> map_of qs k' = Some w \<longrightarrow> struct_eq v w"
      by clarify (rule vals, assumption+)
  qed
next
  case 1
  then show ?case
    by (cases b) simp_all
next
  case (2 v)
  then show ?case
    by (cases b) simp_all
next
  case (3 n)
  then show ?case
    by (cases b) simp_all
next
  case (4 s)
  then show ?case
    by (cases b) simp_all
qed

section \<open>The \<open>Map\<close> of a snapshot and the plan computed from two of them\<close>

lemma map_get_nonprimitive: "\<not> is_primitive k \<Longrightarrow> map_get m k = None"
  by (induction m) (auto simp: same_value_zero_def)

lemma map_has_get: "map_has m k \<longleftrightarrow> map_get m k \<noteq> None"
  by (induction m) auto

lemma map_get_map_set:
  "map_get (map_set m k v) q = (if is_primitive k \<and> k = q then Some v else map_get m q)"
  by (induction m) (auto simp: same_value_zero_def)

lemma set_map_set: "set (map_set m k v) \<subseteq> insert (k, v) (set m)"
  by (induction m) (auto simp: same_value_zero_def split: if_splits)

lemma keys_map_set: "fst ` set (map_set m k v) = insert k (fst ` set m)"
proof (induction m)
  case Nil
  then show ?case by simp
next
  case (Cons e m)
  obtain k' v' where e: "e = (k', v')" by (cases e)
  show ?case
  proof (cases "same_value_zero k' k")
    case True
    then have "k' = k"
      by (simp add: same_value_zero_def)
    with True e show ?thesis
      by auto
  next
    case False
    with e Cons.IH show ?thesis
      by auto
  qed
qed

lemma map_get_entry:
  "distinct (map fst m) \<Longrightarrow> \<forall>k \<in> fst ` set m. is_primitive k \<Longrightarrow>
     (k, v) \<in> set m \<longleftrightarrow> map_get m k = Some v"
proof (induction m)
  case Nil
  then show ?case by simp
next
  case (Cons e m)
  obtain k' v' where e: "e = (k', v')" by (cases e)
  with Cons.prems have "is_primitive k'" "k' \<notin> fst ` set m"
    by auto
  with Cons e show ?case
    by (auto simp: same_value_zero_def rev_image_eqI)
qed

lemma distinct_map_set:
  "distinct (map fst m) \<Longrightarrow> \<forall>k \<in> fst ` set m. is_primitive k \<Longrightarrow> is_primitive k \<Longrightarrow>
     distinct (map fst (map_set m k v))"
proof (induction m)
  case Nil
  then show ?case by simp
next
  case (Cons e m)
  obtain k' v' where e: "e = (k', v')" by (cases e)
  with Cons show ?case
    by (auto simp: same_value_zero_def keys_map_set)
qed

text \<open>The \<open>Map\<close> built from a list of entries.\<close>

lemma foldl_map_set:
  "map_get (foldl (\<lambda>m (k, v). map_set m k v) m es) q
     = (if is_primitive q
        then (case map_of (rev es) q of Some v \<Rightarrow> Some v | None \<Rightarrow> map_get m q)
        else None)"
proof (induction es arbitrary: m)
  case Nil
  then show ?case
    by (simp add: map_get_nonprimitive)
next
  case (Cons e es)
  obtain k v where e: "e = (k, v)" by (cases e)
  show ?case
    by (auto simp: Cons.IH e map_get_map_set map_add_def split: option.splits)
qed

lemma map_get_new_Map:
  "map_get (new_Map es) q = (if is_primitive q then map_of (rev es) q else None)"
  by (simp add: new_Map_def foldl_map_set split: option.splits)

lemma foldl_map_set_entries:
  "set (foldl (\<lambda>m (k, v). map_set m k v) m es) \<subseteq> set m \<union> set es"
proof (induction es arbitrary: m)
  case Nil
  then show ?case by simp
next
  case (Cons e es)
  obtain k v where e: "e = (k, v)" by (cases e)
  from Cons.IH [of "map_set m k v"] set_map_set [of m k v] show ?case
    by (auto simp: e)
qed

lemma foldl_map_set_keys:
  "fst ` set (foldl (\<lambda>m (k, v). map_set m k v) m es) = fst ` set m \<union> fst ` set es"
proof (induction es arbitrary: m)
  case Nil
  then show ?case by simp
next
  case (Cons e es)
  obtain k v where e: "e = (k, v)" by (cases e)
  show ?case
    by (simp add: Cons.IH e keys_map_set)
qed

lemma foldl_map_set_distinct:
  "distinct (map fst m) \<Longrightarrow> \<forall>k \<in> fst ` set m \<union> fst ` set es. is_primitive k \<Longrightarrow>
     distinct (map fst (foldl (\<lambda>m (k, v). map_set m k v) m es))"
proof (induction es arbitrary: m)
  case Nil
  then show ?case by simp
next
  case (Cons e es)
  obtain k v where e: "e = (k, v)" by (cases e)
  have "distinct (map fst (map_set m k v))"
    using Cons.prems e by (intro distinct_map_set) auto
  moreover have "\<forall>k \<in> fst ` set (map_set m k v) \<union> fst ` set es. is_primitive k"
    using Cons.prems e by (auto simp: keys_map_set)
  ultimately show ?case
    using Cons.IH [of "map_set m k v"] by (simp add: e)
qed

text \<open>The \<open>Map\<close> of the records of a snapshot.\<close>

lemma project_map_entries:
  "(k, p) \<in> set (project_map ps) \<Longrightarrow> k = id_of p \<and> p \<in> set ps"
  using foldl_map_set_entries [of "[]" "map (\<lambda>p. (id_of p, p)) ps"]
  by (auto simp: project_map_def new_Map_def)

lemma project_map_keys: "fst ` set (project_map ps) = id_of ` set ps"
  by (simp add: project_map_def new_Map_def foldl_map_set_keys image_image)

lemma project_map_distinct:
  "list_all (\<lambda>p. is_primitive (id_of p)) ps \<Longrightarrow> distinct (map fst (project_map ps))"
  unfolding project_map_def new_Map_def
  by (rule foldl_map_set_distinct) (auto simp: list_all_iff)

lemma project_map_get_None:
  "is_primitive k \<Longrightarrow> map_get (project_map ps) k = None \<longleftrightarrow> k \<notin> id_of ` set ps"
  by (simp add: project_map_def map_get_new_Map map_of_eq_None_iff image_image)

lemma find_creates_updates_eq:
  "find_creates_updates P m (cs, us)
     = (cs @ map snd (filter (\<lambda>(k, l). map_get P k = None) m),
        us @ concat (map (\<lambda>(k, l). case map_get P k of
                                       None \<Rightarrow> []
                                     | Some p \<Rightarrow> if same_text l p then [] else [\<lparr>local = l, prod = p\<rparr>]) m))"
  by (induction m arbitrary: cs us) (auto simp: same_text_def split: option.splits)

lemma find_deletes_eq:
  "find_deletes L m ds = ds @ map snd (filter (\<lambda>(k, p). map_get L k = None) m)"
  by (induction m arbitrary: ds) (auto simp: map_has_get)

lemma analyze_eq:
  "analyze source target
     = \<lparr>toCreate = map snd (filter (\<lambda>(k, l). map_get (project_map (projects target)) k = None)
                          (project_map (projects source))),
        toUpdate = concat (map (\<lambda>(k, l). case map_get (project_map (projects target)) k of
                                       None \<Rightarrow> []
                                     | Some p \<Rightarrow> if same_text l p then [] else [\<lparr>local = l, prod = p\<rparr>])
                          (project_map (projects source))),
        toDelete = map snd (filter (\<lambda>(k, p). map_get (project_map (projects source)) k = None)
                          (project_map (projects target))),
        settingsChanged = (\<not> deepEqual (settings source) (settings target))\<rparr>"
  by (simp add: analyze_def find_creates_updates_eq find_deletes_eq Let_def)

lemma record_named_distinct [simp]:
  "record_named i n = record_named j m \<longleftrightarrow> i = j \<and> n = m"
  by (simp add: record_named_def)

lemma id_of_record_named [simp]: "id_of (record_named i n) = Some (JStr i)"
  by (simp add: id_of_def record_named_def property_def)

lemma same_text_record_named [simp]:
  "same_text (record_named i n) (record_named j m) \<longleftrightarrow> i = j \<and> n = m"
  by (simp add: same_text_def deepEqual_iff record_named_def enumeration_eval)

lemma deepEqual_record_named [simp]:
  "deepEqual (Some (JObj (record_named i n))) (Some (JObj (record_named j m))) \<longleftrightarrow> i = j \<and> n = m"
  using same_text_record_named [of i n j m] by (simp add: same_text_def)

lemma scenario_A_plan:
  "analyze scenario_A_source scenario_A_target
     = \<lparr>toCreate = [record_named ''1'' ''Atrium''],
        toUpdate = [\<lparr>local = record_named ''2'' ''Bridge (new)'', prod = record_named ''2'' ''Bridge''\<rparr>],
        toDelete = [record_named ''4'' ''Depot''], settingsChanged = False\<rparr>"
  by (simp add: analyze_eq scenario_A_source_def scenario_A_target_def project_map_def
        new_Map_def same_value_zero_def deepEqual_same)

lemma ids_of_selected:
  "\<forall>(k, l) \<in> set m. k = id_of l \<Longrightarrow> map id_of (map snd (filter c m)) = map fst (filter c m)"
  by (induction m) auto

lemma ids_of_updates:
  "\<forall>(k, l) \<in> set m. k = id_of l \<Longrightarrow>
     map (\<lambda>u. id_of (local u))
       (concat (map (\<lambda>(k, l). case map_get P k of
                                 None \<Rightarrow> []
                               | Some p \<Rightarrow> if same_text l p then [] else [\<lparr>local = l, prod = p\<rparr>]) m))
     = map fst (filter (\<lambda>(k, l). \<exists>p. map_get P k = Some p \<and> \<not> same_text l p) m)"
  by (induction m) (auto split: option.splits)

lemma set_of_updates:
  "u \<in> set (concat (map (\<lambda>(k, l). case map_get P k of
                                 None \<Rightarrow> []
                               | Some p \<Rightarrow> if same_text l p then [] else [\<lparr>local = l, prod = p\<rparr>]) m))
     \<longleftrightarrow> (\<exists>k. (k, local u) \<in> set m \<and> map_get P k = Some (prod u) \<and> \<not> same_text (local u) (prod u))"
proof (induction m)
  case Nil
  then show ?case by simp
next
  case (Cons e m)
  obtain k l where e: "e = (k, l)" by (cases e)
  have one: "u \<in> set (case map_get P k of
                         None \<Rightarrow> []
                       | Some p \<Rightarrow> if same_text l p then [] else [\<lparr>local = l, prod = p\<rparr>])
        \<longleftrightarrow> (l = local u \<and> map_get P k = Some (prod u) \<and> \<not> same_text (local u) (prod u))"
    by (cases u; cases "map_get P k") auto
  show ?case
    using Cons.IH one by (auto simp: e)
qed

text \<open>What the two \<open>Map\<close>s of snapshots with primitive ids are.\<close>

lemma primitive_map:
  assumes "primitive_ids s"
  shows "distinct (map fst (project_map (projects s)))"
    and "fst ` set (project_map (projects s)) = ids s"
    and "k \<in> ids s \<Longrightarrow> is_primitive k"
    and "(k, p) \<in> set (project_map (projects s)) \<longleftrightarrow> record_of s k = Some p"
    and "record_of s k = None \<longleftrightarrow> k \<notin> ids s"
    and "record_of s k = Some p \<Longrightarrow> k = id_of p \<and> k \<in> ids s"
proof -
  show d: "distinct (map fst (project_map (projects s)))"
    using assms by (simp add: primitive_ids_def project_map_distinct)
  show keys: "fst ` set (project_map (projects s)) = ids s"
    by (simp add: project_map_keys ids_def)
  show prim: "is_primitive k" if "k \<in> ids s" for k
    using assms that by (auto simp: primitive_ids_def ids_def list_all_iff)
  show entry: "(k, p) \<in> set (project_map (projects s)) \<longleftrightarrow> record_of s k = Some p" for k p
    unfolding record_of_def using d keys prim by (intro map_get_entry) auto
  show "record_of s k = None \<longleftrightarrow> k \<notin> ids s"
  proof (cases "is_primitive k")
    case True
    then show ?thesis
      by (simp add: record_of_def project_map_get_None ids_def)
  next
    case False
    with prim show ?thesis
      by (auto simp: record_of_def map_get_nonprimitive)
  qed
  show "k = id_of p \<and> k \<in> ids s" if "record_of s k = Some p"
    using that entry [of k p] project_map_entries [of k p "projects s"] by (auto simp: ids_def)
qed

section \<open>The change plan\<close>

text \<open>
  C1.  For every pair of snapshots (source, target), the plan classifies every record id of
  the two sides into exactly one of four classes, matching by id: the ids of the source that
  the target lacks are the creates, the ids of the target that the source lacks are the
  deletes, the ids found in both whose records are unequal are the updates, and the ids found
  in both whose records are equal are unchanged.  No id stands twice in a list of the plan,
  each entry carries the record of its side (an update both of them), and the four classes
  are disjoint and cover the ids of the two sides.  (Ids are the opaque identifiers of the
  data model, not arrays or objects.)  In scenario A the plan is create = {1}, update = {2},
  delete = {4}, record 3 unchanged, and the settings are not changed.
\<close>

theorem plan_classifies_every_id_once:
  "(primitive_ids source \<and> primitive_ids target \<longrightarrow>
      (let pl = analyze source target;
           created = id_of ` set (toCreate pl);
           updated = (\<lambda>u. id_of (local u)) ` set (toUpdate pl);
           deleted = id_of ` set (toDelete pl)
       in created = ids source - ids target
        \<and> deleted = ids target - ids source
        \<and> updated = differing source target
        \<and> distinct (map id_of (toCreate pl))
        \<and> distinct (map (\<lambda>u. id_of (local u)) (toUpdate pl))
        \<and> distinct (map id_of (toDelete pl))
        \<and> (\<forall>p \<in> set (toCreate pl). record_of source (id_of p) = Some p)
        \<and> (\<forall>u \<in> set (toUpdate pl). record_of source (id_of (local u)) = Some (local u)
                                    \<and> record_of target (id_of (local u)) = Some (prod u))
        \<and> (\<forall>p \<in> set (toDelete pl). record_of target (id_of p) = Some p)
        \<and> created \<union> updated \<union> deleted \<union> unchanged source target = ids source \<union> ids target
        \<and> created \<inter> updated = {} \<and> created \<inter> deleted = {}
        \<and> created \<inter> unchanged source target = {} \<and> updated \<inter> deleted = {}
        \<and> updated \<inter> unchanged source target = {} \<and> deleted \<inter> unchanged source target = {}))
   \<and> analyze scenario_A_source scenario_A_target
       = \<lparr>toCreate = [record_named ''1'' ''Atrium''],
          toUpdate = [\<lparr>local = record_named ''2'' ''Bridge (new)'',
                       prod = record_named ''2'' ''Bridge''\<rparr>],
          toDelete = [record_named ''4'' ''Depot''], settingsChanged = False\<rparr>
   \<and> unchanged scenario_A_source scenario_A_target = {Some (JStr ''3'')}"
proof -
  let ?L = "project_map (projects source)" and ?P = "project_map (projects target)"
  let ?pl = "analyze source target"
  have general: "id_of ` set (toCreate ?pl) = ids source - ids target
        \<and> id_of ` set (toDelete ?pl) = ids target - ids source
        \<and> (\<lambda>u. id_of (local u)) ` set (toUpdate ?pl) = differing source target
        \<and> distinct (map id_of (toCreate ?pl))
        \<and> distinct (map (\<lambda>u. id_of (local u)) (toUpdate ?pl))
        \<and> distinct (map id_of (toDelete ?pl))
        \<and> (\<forall>p \<in> set (toCreate ?pl). record_of source (id_of p) = Some p)
        \<and> (\<forall>u \<in> set (toUpdate ?pl). record_of source (id_of (local u)) = Some (local u)
                                    \<and> record_of target (id_of (local u)) = Some (prod u))
        \<and> (\<forall>p \<in> set (toDelete ?pl). record_of target (id_of p) = Some p)"
    if s: "primitive_ids source" and t: "primitive_ids target"
  proof -
    note S = primitive_map [OF s] and T = primitive_map [OF t]
    have invL: "\<forall>(k, l) \<in> set ?L. k = id_of l" and invP: "\<forall>(k, l) \<in> set ?P. k = id_of l"
      using project_map_entries by blast+
    have getP: "map_get ?P k = record_of target k" and getL: "map_get ?L k = record_of source k" for k
      by (simp_all add: record_of_def)
    have tc: "toCreate ?pl = map snd (filter (\<lambda>(k, l). map_get ?P k = None) ?L)"
      and td: "toDelete ?pl = map snd (filter (\<lambda>(k, l). map_get ?L k = None) ?P)"
      and tu: "toUpdate ?pl
        = concat (map (\<lambda>(k, l). case map_get ?P k of
                                   None \<Rightarrow> []
                                 | Some p \<Rightarrow> if same_text l p then [] else [\<lparr>local = l, prod = p\<rparr>]) ?L)"
      by (simp_all add: analyze_eq)
    have c_ids: "map id_of (toCreate ?pl) = map fst (filter (\<lambda>(k, l). map_get ?P k = None) ?L)"
      unfolding tc by (rule ids_of_selected [OF invL])
    have d_ids: "map id_of (toDelete ?pl) = map fst (filter (\<lambda>(k, l). map_get ?L k = None) ?P)"
      unfolding td by (rule ids_of_selected [OF invP])
    have u_ids: "map (\<lambda>u. id_of (local u)) (toUpdate ?pl)
        = map fst (filter (\<lambda>(k, l). \<exists>p. map_get ?P k = Some p \<and> \<not> same_text l p) ?L)"
      unfolding tu by (rule ids_of_updates [OF invL])
    have "id_of ` set (toCreate ?pl) = set (map id_of (toCreate ?pl))"
      by simp
    also have "\<dots> = {k \<in> ids source. record_of target k = None}"
      unfolding c_ids using S(2) by (force simp: getP)
    also have "\<dots> = ids source - ids target"
      using T(5) by auto
    finally have created: "id_of ` set (toCreate ?pl) = ids source - ids target" .
    have "id_of ` set (toDelete ?pl) = set (map id_of (toDelete ?pl))"
      by simp
    also have "\<dots> = {k \<in> ids target. record_of source k = None}"
      unfolding d_ids using T(2) by (force simp: getL)
    also have "\<dots> = ids target - ids source"
      using S(5) by auto
    finally have deleted: "id_of ` set (toDelete ?pl) = ids target - ids source" .
    have "(\<lambda>u. id_of (local u)) ` set (toUpdate ?pl) = set (map (\<lambda>u. id_of (local u)) (toUpdate ?pl))"
      by simp
    also have "\<dots> = {k. \<exists>l p. record_of source k = Some l \<and> record_of target k = Some p \<and> \<not> same_text l p}"
      unfolding u_ids using S(4) by (force simp: getP)
    also have "\<dots> = differing source target"
    proof -
      have "(\<exists>l p. record_of source k = Some l \<and> record_of target k = Some p \<and> \<not> same_text l p)
          \<longleftrightarrow> (k \<in> ids source \<inter> ids target
               \<and> \<not> deepEqual (map_option JObj (record_of source k))
                              (map_option JObj (record_of target k)))" for k
        using S(5) [of k] T(5) [of k]
        by (cases "record_of source k"; cases "record_of target k") (auto simp: same_text_def)
      then show ?thesis
        unfolding differing_def by (intro Collect_cong)
    qed
    finally have updated:
      "(\<lambda>u. id_of (local u)) ` set (toUpdate ?pl) = differing source target" .
    have distinct: "distinct (map id_of (toCreate ?pl))"
      "distinct (map (\<lambda>u. id_of (local u)) (toUpdate ?pl))" "distinct (map id_of (toDelete ?pl))"
      unfolding c_ids u_ids d_ids using S(1) T(1) by (simp_all add: distinct_map_filter)
    have c_rec: "record_of source (id_of p) = Some p" if "p \<in> set (toCreate ?pl)" for p
    proof -
      from that obtain k where "(k, p) \<in> set ?L"
        by (auto simp: tc)
      then have r: "record_of source k = Some p"
        using S(4) by simp
      from S(6) [OF r] r show ?thesis
        by simp
    qed
    have d_rec: "record_of target (id_of p) = Some p" if "p \<in> set (toDelete ?pl)" for p
    proof -
      from that obtain k where "(k, p) \<in> set ?P"
        by (auto simp: td)
      then have r: "record_of target k = Some p"
        using T(4) by simp
      from T(6) [OF r] r show ?thesis
        by simp
    qed
    have u_rec: "record_of source (id_of (local u)) = Some (local u)
                 \<and> record_of target (id_of (local u)) = Some (prod u)"
      if "u \<in> set (toUpdate ?pl)" for u
    proof -
      from that obtain k where "(k, local u) \<in> set ?L" "map_get ?P k = Some (prod u)"
        unfolding tu set_of_updates by blast
      then have r: "record_of source k = Some (local u)" "record_of target k = Some (prod u)"
        using S(4) getP by simp_all
      from S(6) [OF r(1)] r show ?thesis
        by simp
    qed
    show ?thesis
      using created deleted updated distinct c_rec d_rec u_rec by blast
  qed
  have cover: "(ids source - ids target) \<union> differing source target \<union> (ids target - ids source)
        \<union> unchanged source target = ids source \<union> ids target"
    by (auto simp: differing_def unchanged_def)
  have apart: "(ids source - ids target) \<inter> differing source target = {}"
    "(ids source - ids target) \<inter> (ids target - ids source) = {}"
    "(ids source - ids target) \<inter> unchanged source target = {}"
    "differing source target \<inter> (ids target - ids source) = {}"
    "differing source target \<inter> unchanged source target = {}"
    "(ids target - ids source) \<inter> unchanged source target = {}"
    by (auto simp: differing_def unchanged_def)
  have scenario: "analyze scenario_A_source scenario_A_target
       = \<lparr>toCreate = [record_named ''1'' ''Atrium''],
          toUpdate = [\<lparr>local = record_named ''2'' ''Bridge (new)'',
                       prod = record_named ''2'' ''Bridge''\<rparr>],
          toDelete = [record_named ''4'' ''Depot''], settingsChanged = False\<rparr>"
    by (rule scenario_A_plan)
  have same: "unchanged scenario_A_source scenario_A_target = {Some (JStr ''3'')}"
    by (auto simp: unchanged_def ids_def record_of_def scenario_A_source_def
          scenario_A_target_def project_map_def new_Map_def same_value_zero_def)
  show ?thesis
    unfolding Let_def using general cover apart scenario same by (intro conjI impI) auto
qed

theorem plan_classifies_every_id_once_witness:
  "primitive_ids scenario_A_source \<and> primitive_ids scenario_A_target
   \<and> id_of ` set (toCreate (analyze scenario_A_source scenario_A_target))
       = ids scenario_A_source - ids scenario_A_target
   \<and> id_of ` set (toDelete (analyze scenario_A_source scenario_A_target))
       = ids scenario_A_target - ids scenario_A_source
   \<and> (\<lambda>u. id_of (local u)) ` set (toUpdate (analyze scenario_A_source scenario_A_target))
       = differing scenario_A_source scenario_A_target
   \<and> distinct (map id_of (toCreate (analyze scenario_A_source scenario_A_target)))"
proof -
  have s: "primitive_ids scenario_A_source"
    by (simp add: primitive_ids_def scenario_A_source_def)
  have t: "primitive_ids scenario_A_target"
    by (simp add: primitive_ids_def scenario_A_target_def)
  have both: "primitive_ids scenario_A_source \<and> primitive_ids scenario_A_target"
    using s t by simp
  note classes = plan_classifies_every_id_once
    [of scenario_A_source scenario_A_target, THEN conjunct1, THEN mp, OF both, unfolded Let_def]
  from classes have created: "id_of ` set (toCreate (analyze scenario_A_source scenario_A_target))
       = ids scenario_A_source - ids scenario_A_target"
    by (rule conjunct1)
  from classes have deleted: "id_of ` set (toDelete (analyze scenario_A_source scenario_A_target))
       = ids scenario_A_target - ids scenario_A_source"
    by (elim conjE)
  from classes have updated:
    "(\<lambda>u. id_of (local u)) ` set (toUpdate (analyze scenario_A_source scenario_A_target))
       = differing scenario_A_source scenario_A_target"
    by (elim conjE)
  from classes have once: "distinct (map id_of (toCreate (analyze scenario_A_source scenario_A_target)))"
    by (elim conjE)
  from s t created deleted updated once show ?thesis
    by (intro conjI)
qed

lemma map_get_in_set: "map_get m k = Some v \<Longrightarrow> (k, v) \<in> set m"
  by (induction m) (auto simp: same_value_zero_def split: if_splits)

text \<open>
  When two objects are enumerated alike: the properties under array indices are the same,
  in whatever order they were created, and the other properties are the same in the same
  order.
\<close>

lemma index_keys_apart:
  assumes "array_index (fst p) \<noteq> None" "array_index (fst q) \<noteq> None"
  shows "index_of p = index_of q \<longleftrightarrow> fst p = fst q"
proof -
  from assms obtain n m where n: "array_index (fst p) = Some n" and m: "array_index (fst q) = Some m"
    by auto
  have "fst p = fst q \<longleftrightarrow> n = m"
  proof
    assume "fst p = fst q"
    with n m show "n = m"
      by simp
  next
    assume "n = m"
    with array_index_text [OF n] array_index_text [OF m] show "fst p = fst q"
      by simp
  qed
  moreover have "index_of p = n" "index_of q = m"
    using n m by (simp_all add: index_of_def)
  ultimately show ?thesis
    by simp
qed

lemma index_sorted_unique:
  assumes dp: "distinct (map fst ps)" and dq: "distinct (map fst qs)"
    and same: "set ps = set qs"
    and idx: "\<forall>e \<in> set ps. array_index (fst e) \<noteq> None"
  shows "sort_key index_of ps = sort_key index_of qs"
proof (rule map_sorted_distinct_set_unique [where f = index_of])
  have inj: "inj_on index_of (set ps)"
  proof (rule inj_onI)
    fix p q
    assume p: "p \<in> set ps" and q: "q \<in> set ps" and "index_of p = index_of q"
    with idx index_keys_apart [of p q] have "fst p = fst q"
      by simp
    moreover from p q have "(fst p, snd p) \<in> set ps" "(fst q, snd q) \<in> set ps"
      by simp_all
    ultimately have "snd p = snd q"
      using eq_key_imp_eq_value [OF dp, of "fst p" "snd p" "snd q"] by simp
    with \<open>fst p = fst q\<close> show "p = q"
      by (simp add: prod_eq_iff)
  qed
  from dp have "distinct ps"
    by (simp add: distinct_map)
  from dq have "distinct qs"
    by (simp add: distinct_map)
  from inj same show "inj_on index_of (set (sort_key index_of ps) \<union> set (sort_key index_of qs))"
    by simp
  show "sorted (map index_of (sort_key index_of ps))"
    by (rule sorted_sort_key)
  show "sorted (map index_of (sort_key index_of qs))"
    by (rule sorted_sort_key)
  from inj \<open>distinct ps\<close> show "distinct (map index_of (sort_key index_of ps))"
    by (simp add: distinct_map)
  from inj same \<open>distinct qs\<close> show "distinct (map index_of (sort_key index_of qs))"
    by (simp add: distinct_map)
  from same show "set (sort_key index_of ps) = set (sort_key index_of qs)"
    by simp
qed

lemma filter_sorted_parts:
  "filter P (sort_key f (filter P kvs) @ filter (\<lambda>e. \<not> P e) kvs) = sort_key f (filter P kvs)"
  "filter (\<lambda>e. \<not> P e) (sort_key f (filter P kvs) @ filter (\<lambda>e. \<not> P e) kvs)
     = filter (\<lambda>e. \<not> P e) kvs"
  by (simp_all add: filter_sort)

lemma enumeration_parts:
  "filter (\<lambda>e. array_index (fst e) \<noteq> None) (enumeration kvs)
     = sort_key index_of (filter (\<lambda>e. array_index (fst e) \<noteq> None) kvs)"
  "filter (\<lambda>e. array_index (fst e) = None) (enumeration kvs)
     = filter (\<lambda>e. array_index (fst e) = None) kvs"
  unfolding enumeration_def
  using filter_sorted_parts [of "\<lambda>e. array_index (fst e) \<noteq> None" index_of kvs]
  by simp_all

lemma enumeration_eq_iff:
  assumes dp: "distinct (map fst ps)" and dq: "distinct (map fst qs)"
  shows "enumeration ps = enumeration qs \<longleftrightarrow>
           set (filter (\<lambda>e. array_index (fst e) \<noteq> None) ps)
             = set (filter (\<lambda>e. array_index (fst e) \<noteq> None) qs)
           \<and> filter (\<lambda>e. array_index (fst e) = None) ps
             = filter (\<lambda>e. array_index (fst e) = None) qs"
proof
  let ?I = "\<lambda>e :: string \<times> 'a. array_index (fst e) \<noteq> None"
  let ?N = "\<lambda>e :: string \<times> 'a. array_index (fst e) = None"
  assume eq: "enumeration ps = enumeration qs"
  then have "filter ?I (enumeration ps) = filter ?I (enumeration qs)"
    by (rule arg_cong)
  then have "sort_key index_of (filter ?I ps) = sort_key index_of (filter ?I qs)"
    by (simp only: enumeration_parts)
  then have "set (sort_key index_of (filter ?I ps)) = set (sort_key index_of (filter ?I qs))"
    by (rule arg_cong)
  then have sets: "set (filter ?I ps) = set (filter ?I qs)"
    by (simp only: set_sort)
  from eq have "filter ?N (enumeration ps) = filter ?N (enumeration qs)"
    by (rule arg_cong)
  then have "filter ?N ps = filter ?N qs"
    by (simp only: enumeration_parts)
  with sets show "set (filter ?I ps) = set (filter ?I qs) \<and> filter ?N ps = filter ?N qs"
    by (rule conjI)
next
  let ?I = "\<lambda>e :: string \<times> 'a. array_index (fst e) \<noteq> None"
  let ?N = "\<lambda>e :: string \<times> 'a. array_index (fst e) = None"
  assume "set (filter ?I ps) = set (filter ?I qs) \<and> filter ?N ps = filter ?N qs"
  then have sets: "set (filter ?I ps) = set (filter ?I qs)"
    and names: "filter ?N ps = filter ?N qs"
    by (rule conjunct1, rule conjunct2)
  have "sort_key index_of (filter ?I ps) = sort_key index_of (filter ?I qs)"
  proof (rule index_sorted_unique)
    show "distinct (map fst (filter ?I ps))"
      using dp by (rule distinct_map_filter)
    show "distinct (map fst (filter ?I qs))"
      using dq by (rule distinct_map_filter)
    show "set (filter ?I ps) = set (filter ?I qs)"
      by (rule sets)
    show "\<forall>e \<in> set (filter ?I ps). array_index (fst e) \<noteq> None"
      by simp
  qed
  with names show "enumeration ps = enumeration qs"
    by (simp only: enumeration_def)
qed

text \<open>The small digits are array indices; a key with a letter in it is not.\<close>

lemma show_nat_digit: "n < 10 \<Longrightarrow> show_nat n = [digit_char n]"
  by (subst show_nat.simps) simp

lemma array_index_digits:
  "array_index ''1'' = Some 1"
  "array_index ''2'' = Some 2"
  by (simp_all add: array_index_def is_digit_def read_nat_def digit_value_def show_nat_digit
        digit_char_def)

lemma reordered_records:
  "record_of reordered_source (Some (JStr ''7''))
     = Some (staged_record [(''design'', JStr ''2020''), (''build'', JStr ''2021'')])"
  "record_of reordered_target (Some (JStr ''7''))
     = Some (staged_record [(''build'', JStr ''2021''), (''design'', JStr ''2020'')])"
  by (simp_all add: record_of_def reordered_source_def reordered_target_def project_map_def
        new_Map_def same_value_zero_def id_of_def property_def staged_record_def)

lemma reordered_struct_eq:
  "struct_eq (JObj (staged_record [(''design'', JStr ''2020''), (''build'', JStr ''2021'')]))
             (JObj (staged_record [(''build'', JStr ''2021''), (''design'', JStr ''2020'')]))"
  by (auto simp: staged_record_def)

lemma reordered_apart:
  "\<not> deepEqual (Some (JObj (staged_record [(''design'', JStr ''2020''), (''build'', JStr ''2021'')])))
               (Some (JObj (staged_record [(''build'', JStr ''2021''), (''design'', JStr ''2020'')])))"
  by (simp add: deepEqual_iff staged_record_def enumeration_eval)

lemma numbered_alike:
  "deepEqual (Some (JObj (staged_record [(''2'', JStr ''2021''), (''1'', JStr ''2020'')])))
             (Some (JObj (staged_record [(''1'', JStr ''2020''), (''2'', JStr ''2021'')])))"
proof -
  have names: "array_index ''id'' = None" "array_index ''name'' = None" "array_index ''stages'' = None"
    by (simp_all add: array_index_not_digits is_digit_def)
  show ?thesis
    by (simp add: deepEqual_iff staged_record_def enumeration_def index_of_def names
          array_index_digits)
qed

lemma numbered_plan:
  "analyze numbered_source numbered_target
     = \<lparr>toCreate = [], toUpdate = [], toDelete = [], settingsChanged = False\<rparr>"
proof -
  have "same_text (staged_record [(''2'', JStr ''2021''), (''1'', JStr ''2020'')])
                  (staged_record [(''1'', JStr ''2020''), (''2'', JStr ''2021'')])"
    using numbered_alike by (simp add: same_text_def)
  moreover have "id_of (staged_record stages) = Some (JStr ''7'')" for stages
    by (simp add: id_of_def property_def staged_record_def)
  ultimately show ?thesis
    by (simp add: analyze_eq numbered_source_def numbered_target_def project_map_def
          new_Map_def same_value_zero_def deepEqual_same)
qed

text \<open>
  C2 (amended).  For every record id found in both snapshots, the pair is an update exactly
  when \<open>deepEqual\<close> tells the two records apart, that is when their \<open>JSON.stringify\<close> texts
  differ.  Two values have the same text exactly when they are the same tree once the
  properties of every object, nested ones included, are put in JavaScript's enumeration
  order: the keys that are array indices in ascending numeric order, then the other keys in
  the order in which they were inserted.  For two objects with distinct keys this means: the
  same properties under array indices, inserted in any order, and the same other properties
  in the same order.  So two records that are not structurally equal are always an update;
  two records whose only difference is the insertion order of keys that are not array indices
  inside a nested mapping (\<open>design\<close>, \<open>build\<close>) are structurally equal and an update all the
  same; and two records whose only difference is the insertion order of array indices
  (\<open>2\<close>, \<open>1\<close>) have the same text and are in sync.
\<close>

theorem update_iff_serializations_differ:
  "(record_of source k = Some l \<and> record_of target k = Some p \<longrightarrow>
      (\<lparr>local = l, prod = p\<rparr> \<in> set (toUpdate (analyze source target))
         \<longleftrightarrow> \<not> deepEqual (Some (JObj l)) (Some (JObj p)))
      \<and> (\<not> struct_eq (JObj l) (JObj p)
           \<longrightarrow> \<lparr>local = l, prod = p\<rparr> \<in> set (toUpdate (analyze source target))))
   \<and> (deepEqual (Some a) (Some b) \<longleftrightarrow> stringify a = stringify b)
   \<and> (stringify a = stringify b \<longleftrightarrow> enumerated a = enumerated b)
   \<and> (distinct (map fst ps) \<and> distinct (map fst qs) \<longrightarrow>
        (enumeration ps = enumeration qs \<longleftrightarrow>
           set (filter (\<lambda>e. array_index (fst e) \<noteq> None) ps)
             = set (filter (\<lambda>e. array_index (fst e) \<noteq> None) qs)
           \<and> filter (\<lambda>e. array_index (fst e) = None) ps
             = filter (\<lambda>e. array_index (fst e) = None) qs))
   \<and> projects numbered_source \<noteq> projects numbered_target
   \<and> analyze numbered_source numbered_target
       = \<lparr>toCreate = [], toUpdate = [], toDelete = [], settingsChanged = False\<rparr>"
proof -
  have tu: "toUpdate (analyze source target)
        = concat (map (\<lambda>(k, l). case map_get (project_map (projects target)) k of
                                   None \<Rightarrow> []
                                 | Some p \<Rightarrow> if same_text l p then [] else [\<lparr>local = l, prod = p\<rparr>])
                    (project_map (projects source)))"
    by (simp add: analyze_eq)
  have member: "\<lparr>local = l, prod = p\<rparr> \<in> set (toUpdate (analyze source target))
      \<longleftrightarrow> \<not> deepEqual (Some (JObj l)) (Some (JObj p))"
    if l: "record_of source k = Some l" and p: "record_of target k = Some p"
  proof
    assume "\<lparr>local = l, prod = p\<rparr> \<in> set (toUpdate (analyze source target))"
    then show "\<not> deepEqual (Some (JObj l)) (Some (JObj p))"
      unfolding tu set_of_updates by (auto simp: same_text_def)
  next
    assume "\<not> deepEqual (Some (JObj l)) (Some (JObj p))"
    then have "\<not> same_text l p"
      by (simp add: same_text_def)
    moreover from l have "(k, l) \<in> set (project_map (projects source))"
      unfolding record_of_def by (rule map_get_in_set)
    moreover from p have "map_get (project_map (projects target)) k = Some p"
      by (simp add: record_of_def)
    ultimately show "\<lparr>local = l, prod = p\<rparr> \<in> set (toUpdate (analyze source target))"
      unfolding tu set_of_updates by auto
  qed
  have unequal: "\<not> deepEqual (Some (JObj l)) (Some (JObj p))"
    if apart: "\<not> struct_eq (JObj l) (JObj p)"
  proof
    assume "deepEqual (Some (JObj l)) (Some (JObj p))"
    then have "enumerated (JObj l) = enumerated (JObj p)"
      by (simp only: deepEqual_iff option.map option.inject)
    then have "struct_eq (JObj l) (JObj p)"
      by (rule enumerated_struct_eq)
    with apart show False
      by (rule notE)
  qed
  have records: "record_of source k = Some l \<and> record_of target k = Some p \<longrightarrow>
      (\<lparr>local = l, prod = p\<rparr> \<in> set (toUpdate (analyze source target))
         \<longleftrightarrow> \<not> deepEqual (Some (JObj l)) (Some (JObj p)))
      \<and> (\<not> struct_eq (JObj l) (JObj p)
           \<longrightarrow> \<lparr>local = l, prod = p\<rparr> \<in> set (toUpdate (analyze source target)))"
    using member unequal by blast
  have texts: "deepEqual (Some a) (Some b) \<longleftrightarrow> stringify a = stringify b"
    by (simp add: deepEqual_def JSON_stringify_def)
  have written: "projects numbered_source \<noteq> projects numbered_target"
    by (simp add: numbered_source_def numbered_target_def staged_record_def)
  have alike: "distinct (map fst ps) \<and> distinct (map fst qs) \<longrightarrow>
        (enumeration ps = enumeration qs \<longleftrightarrow>
           set (filter (\<lambda>e. array_index (fst e) \<noteq> None) ps)
             = set (filter (\<lambda>e. array_index (fst e) \<noteq> None) qs)
           \<and> filter (\<lambda>e. array_index (fst e) = None) ps
             = filter (\<lambda>e. array_index (fst e) = None) qs)"
    by (intro impI, elim conjE) (rule enumeration_eq_iff)
  from records texts stringify_eq [of a b] alike written numbered_plan show ?thesis
    by (intro conjI)
qed

theorem update_iff_serializations_differ_witness:
  "record_of reordered_source (Some (JStr ''7''))
     = Some (staged_record [(''design'', JStr ''2020''), (''build'', JStr ''2021'')])
   \<and> record_of reordered_target (Some (JStr ''7''))
     = Some (staged_record [(''build'', JStr ''2021''), (''design'', JStr ''2020'')])
   \<and> \<not> deepEqual (Some (JObj (staged_record [(''design'', JStr ''2020''), (''build'', JStr ''2021'')])))
                  (Some (JObj (staged_record [(''build'', JStr ''2021''), (''design'', JStr ''2020'')])))
   \<and> \<lparr>local = staged_record [(''design'', JStr ''2020''), (''build'', JStr ''2021'')],
       prod = staged_record [(''build'', JStr ''2021''), (''design'', JStr ''2020'')]\<rparr>
       \<in> set (toUpdate (analyze reordered_source reordered_target))
   \<and> distinct (map fst [(''2'', JStr ''2021''), (''1'', JStr ''2020'')])
   \<and> distinct (map fst [(''1'', JStr ''2020''), (''2'', JStr ''2021'')])
   \<and> enumeration [(''2'', JStr ''2021''), (''1'', JStr ''2020'')]
       = enumeration [(''1'', JStr ''2020''), (''2'', JStr ''2021'')]"
proof -
  let ?l = "staged_record [(''design'', JStr ''2020''), (''build'', JStr ''2021'')]"
  let ?p = "staged_record [(''build'', JStr ''2021''), (''design'', JStr ''2020'')]"
  let ?ps = "[(''2'', JStr ''2021''), (''1'', JStr ''2020'')]"
  let ?qs = "[(''1'', JStr ''2020''), (''2'', JStr ''2021'')]"
  note amended = update_iff_serializations_differ
    [where source = reordered_source and target = reordered_target and k = "Some (JStr ''7'')"
       and l = ?l and p = ?p and ps = ?ps and qs = ?qs]
  have keys: "distinct (map fst ?ps)" "distinct (map fst ?qs)"
    by simp_all
  note enumerated_alike =
    amended [THEN conjunct2, THEN conjunct2, THEN conjunct2, THEN conjunct1, THEN mp]
  from keys have "distinct (map fst ?ps) \<and> distinct (map fst ?qs)"
    by (rule conjI)
  from enumerated_alike [OF this] have alike: "enumeration ?ps = enumeration ?qs"
    by (auto simp: array_index_digits)
  have records: "record_of reordered_source (Some (JStr ''7'')) = Some ?l
      \<and> record_of reordered_target (Some (JStr ''7'')) = Some ?p"
    using reordered_records by simp
  note classified = amended [THEN conjunct1, THEN mp, OF records, THEN conjunct1]
  from classified reordered_apart
  have update: "\<lparr>local = ?l, prod = ?p\<rparr> \<in> set (toUpdate (analyze reordered_source reordered_target))"
    by simp
  from reordered_records reordered_apart update keys alike show ?thesis
    by (intro conjI)
qed

text \<open>
  The claim as it is written fails on these two snapshots: the record with id 7 is in both,
  its two versions are structurally equal, and the pair is an update all the same.
\<close>

theorem update_when_structurally_equal:
  "record_of reordered_source (Some (JStr ''7''))
     = Some (staged_record [(''design'', JStr ''2020''), (''build'', JStr ''2021'')])
   \<and> record_of reordered_target (Some (JStr ''7''))
     = Some (staged_record [(''build'', JStr ''2021''), (''design'', JStr ''2020'')])
   \<and> struct_eq (JObj (staged_record [(''design'', JStr ''2020''), (''build'', JStr ''2021'')]))
                (JObj (staged_record [(''build'', JStr ''2021''), (''design'', JStr ''2020'')]))
   \<and> toUpdate (analyze reordered_source reordered_target)
       = [\<lparr>local = staged_record [(''design'', JStr ''2020''), (''build'', JStr ''2021'')],
           prod = staged_record [(''build'', JStr ''2021''), (''design'', JStr ''2020'')]\<rparr>]"
proof -
  have "\<not> same_text (staged_record [(''design'', JStr ''2020''), (''build'', JStr ''2021'')])
                    (staged_record [(''build'', JStr ''2021''), (''design'', JStr ''2020'')])"
    using reordered_apart by (simp add: same_text_def)
  moreover have "id_of (staged_record stages) = Some (JStr ''7'')" for stages
    by (simp add: id_of_def property_def staged_record_def)
  ultimately have "toUpdate (analyze reordered_source reordered_target)
       = [\<lparr>local = staged_record [(''design'', JStr ''2020''), (''build'', JStr ''2021'')],
           prod = staged_record [(''build'', JStr ''2021''), (''design'', JStr ''2020'')]\<rparr>]"
    by (simp add: analyze_eq reordered_source_def reordered_target_def project_map_def
          new_Map_def same_value_zero_def)
  with reordered_records reordered_struct_eq show ?thesis
    by simp
qed

lemma identical_plan:
  assumes "primitive_ids s"
  shows "analyze s s = \<lparr>toCreate = [], toUpdate = [], toDelete = [], settingsChanged = False\<rparr>"
proof -
  note S = primitive_map [OF assms]
  let ?L = "project_map (projects s)"
  have found: "map_get ?L k = Some l" if "(k, l) \<in> set ?L" for k l
    using that S(4) [of k l] by (simp add: record_of_def)
  have "filter (\<lambda>(k, l). map_get ?L k = None) ?L = []"
    using found by (auto simp: filter_empty_conv)
  moreover have "concat (map (\<lambda>(k, l). case map_get ?L k of
                                   None \<Rightarrow> []
                                 | Some p \<Rightarrow> if same_text l p then [] else [\<lparr>local = l, prod = p\<rparr>]) ?L) = []"
    using found by (auto simp: same_text_def deepEqual_same)
  ultimately show ?thesis
    by (simp add: analyze_eq deepEqual_same)
qed

text \<open>
  C4.  Reconciling any snapshot against an identical copy of itself yields an empty plan (no
  creates, no updates, no deletes, \<open>settingsChanged = false\<close>), and for every empty plan the
  run reports being already in sync and sends no create, update or delete request: its whole
  trace is the fetch of the production data and the line "Already in sync".  (Ids are the
  opaque identifiers of the data model, not arrays or objects.)
\<close>

theorem identical_snapshots_already_in_sync:
  "(primitive_ids s \<longrightarrow>
      analyze s s = \<lparr>toCreate = [], toUpdate = [], toDelete = [], settingsChanged = False\<rparr>
      \<and> plan_empty (analyze s s))
   \<and> (sync_load gw local_file w = Inr (localData, prodData, r1)
       \<and> plan_empty (analyze localData prodData) \<longrightarrow>
      fst (syncData gw autoConfirm answer local_file w) = Returned
      \<and> trace (snd (syncData gw autoConfirm answer local_file w))
          = [Fetch GET_data (fst (gw w GET_data)), Print AlreadyInSync]
      \<and> mutations (trace (snd (syncData gw autoConfirm answer local_file w))) = [])
   \<and> (primitive_ids s \<and> fst (gw w GET_data) = Http True (Some (document_of s)) \<longrightarrow>
      fst (syncData gw autoConfirm answer (Some (Some (document_of s))) w) = Returned
      \<and> trace (snd (syncData gw autoConfirm answer (Some (Some (document_of s))) w))
          = [Fetch GET_data (Http True (Some (document_of s))), Print AlreadyInSync])"
proof -
  have plan: "analyze s s = \<lparr>toCreate = [], toUpdate = [], toDelete = [], settingsChanged = False\<rparr>
      \<and> plan_empty (analyze s s)" if "primitive_ids s"
    using identical_plan [OF that] by (simp add: plan_empty_def)
  have run: "fst (syncData gw autoConfirm answer local_file w) = Returned
      \<and> trace (snd (syncData gw autoConfirm answer local_file w))
          = [Fetch GET_data (fst (gw w GET_data)), Print AlreadyInSync]
      \<and> mutations (trace (snd (syncData gw autoConfirm answer local_file w))) = []"
    if "sync_load gw local_file w = Inr (localData, prodData, r1)"
       "plan_empty (analyze localData prodData)"
    for gw :: "'a gateway" and local_file w localData prodData r1
    using that sync_load_loaded [OF that(1)]
    by (simp add: syncData_def sync_review_in_sync mutations_def is_mutation_def)
  have same: "fst (syncData gw autoConfirm answer (Some (Some (document_of s))) w) = Returned
      \<and> trace (snd (syncData gw autoConfirm answer (Some (Some (document_of s))) w))
          = [Fetch GET_data (Http True (Some (document_of s))), Print AlreadyInSync]"
    if "primitive_ids s" "fst (gw w GET_data) = Http True (Some (document_of s))"
    using run [OF sync_load_documents [of gw w s s, OF that(2)]] plan [OF that(1)] that(2)
    by (simp add: plan_empty_def)
  show ?thesis
    using plan run same by blast
qed

theorem identical_snapshots_already_in_sync_witness:
  "primitive_ids scenario_A_source
   \<and> fst (accepting_gateway (document_of scenario_A_source) () GET_data)
       = Http True (Some (document_of scenario_A_source))
   \<and> analyze scenario_A_source scenario_A_source
       = \<lparr>toCreate = [], toUpdate = [], toDelete = [], settingsChanged = False\<rparr>
   \<and> fst (syncData (accepting_gateway (document_of scenario_A_source)) False ''no''
             (Some (Some (document_of scenario_A_source))) ()) = Returned
   \<and> trace (snd (syncData (accepting_gateway (document_of scenario_A_source)) False ''no''
                    (Some (Some (document_of scenario_A_source))) ()))
       = [Fetch GET_data (Http True (Some (document_of scenario_A_source))), Print AlreadyInSync]"
proof -
  have s: "primitive_ids scenario_A_source"
    by (simp add: primitive_ids_def scenario_A_source_def)
  have g: "fst (accepting_gateway (document_of scenario_A_source) () GET_data)
       = Http True (Some (document_of scenario_A_source))"
    by simp
  note in_sync = identical_snapshots_already_in_sync
    [where s = scenario_A_source and gw = "accepting_gateway (document_of scenario_A_source)"
       and w = "()" and autoConfirm = False and answer = "''no''"]
  from in_sync [THEN conjunct1] s
  have "analyze scenario_A_source scenario_A_source
       = \<lparr>toCreate = [], toUpdate = [], toDelete = [], settingsChanged = False\<rparr>"
    by simp
  moreover from in_sync [THEN conjunct2, THEN conjunct2] s g
  have "fst (syncData (accepting_gateway (document_of scenario_A_source)) False ''no''
             (Some (Some (document_of scenario_A_source))) ()) = Returned
   \<and> trace (snd (syncData (accepting_gateway (document_of scenario_A_source)) False ''no''
                    (Some (Some (document_of scenario_A_source))) ()))
       = [Fetch GET_data (Http True (Some (document_of scenario_A_source))), Print AlreadyInSync]"
    by simp
  ultimately show ?thesis
    using s g by simp
qed

lemma scenario_A_load:
  "sync_load (accepting_gateway (document_of scenario_A_target))
       (Some (Some (document_of scenario_A_source))) ()
     = Inr (scenario_A_source, scenario_A_target,
            \<lparr>world = (),
             trace = [Fetch GET_data (Http True (Some (document_of scenario_A_target)))]\<rparr>)"
  using sync_load_documents
    [of "accepting_gateway (document_of scenario_A_target)" "()" scenario_A_target scenario_A_source]
  by simp

lemma scenario_A_executes:
  "\<not> plan_empty (analyze scenario_A_source scenario_A_target)"
  "\<not> summary_throws scenario_A_source scenario_A_target"
  by (simp_all add: scenario_A_plan plan_empty_def summary_throws_def)

section \<open>The order of the operations\<close>

text \<open>
  C3.  For every confirmed non-empty change plan, the execution issues all create operations
  before any update operation, and all update operations before any delete operation.  In
  every run of \<open>syncData\<close> no create follows an update or a delete and no update follows a
  delete; and a run that loads both snapshots, has a non-empty plan and is confirmed sends,
  after the fetch, exactly the creates of the plan, then its updates, then its deletes.
\<close>

theorem creates_before_updates_before_deletes:
  "all_before is_create is_update
     (requests (trace (snd (syncData gw autoConfirm answer local_file w))))
   \<and> all_before is_update is_delete
     (requests (trace (snd (syncData gw autoConfirm answer local_file w))))
   \<and> all_before is_create is_delete
     (requests (trace (snd (syncData gw autoConfirm answer local_file w))))
   \<and> (sync_load gw local_file w = Inr (localData, prodData, r1)
       \<and> \<not> plan_empty (analyze localData prodData) \<and> \<not> summary_throws localData prodData
       \<and> sync_confirmed autoConfirm answer
      \<longrightarrow> requests (trace (snd (syncData gw autoConfirm answer local_file w)))
            = GET_data # create_requests (analyze localData prodData)
                @ update_requests (analyze localData prodData)
                @ delete_requests (analyze localData prodData))"
proof -
  let ?reqs = "requests (trace (snd (syncData gw autoConfirm answer local_file w)))"
  have shape: "?reqs = [] \<or> ?reqs = [GET_data]
      \<or> (\<exists>pl. ?reqs = [GET_data] @ create_requests pl @ update_requests pl @ delete_requests pl)"
  proof (cases "sync_load gw local_file w")
    case (Inl stopped)
    then show ?thesis
      using sync_load_stopped [of gw local_file w "fst stopped" "snd stopped"]
      by (cases stopped) (auto simp: syncData_requests)
  next
    case (Inr loaded)
    then show ?thesis
      by (auto simp: syncData_requests split: prod.splits)
  qed
  have order: "all_before is_create is_update ?reqs \<and> all_before is_update is_delete ?reqs
      \<and> all_before is_create is_delete ?reqs"
    using shape phases_in_order [of "[GET_data]"] by auto
  have executed: "?reqs = GET_data # create_requests (analyze localData prodData)
                @ update_requests (analyze localData prodData)
                @ delete_requests (analyze localData prodData)"
    if "sync_load gw local_file w = Inr (localData, prodData, r1)"
       "\<not> plan_empty (analyze localData prodData)" "\<not> summary_throws localData prodData"
       "sync_confirmed autoConfirm answer"
    using that by (simp add: syncData_requests)
  show ?thesis
    using order executed by blast
qed

theorem creates_before_updates_before_deletes_witness:
  "sync_load (accepting_gateway (document_of scenario_A_target))
       (Some (Some (document_of scenario_A_source))) ()
     = Inr (scenario_A_source, scenario_A_target,
            \<lparr>world = (),
             trace = [Fetch GET_data (Http True (Some (document_of scenario_A_target)))]\<rparr>)
   \<and> \<not> plan_empty (analyze scenario_A_source scenario_A_target)
   \<and> \<not> summary_throws scenario_A_source scenario_A_target
   \<and> sync_confirmed True []
   \<and> requests (trace (snd (syncData (accepting_gateway (document_of scenario_A_target)) True []
                             (Some (Some (document_of scenario_A_source))) ())))
       = [GET_data, POST_project (record_named ''1'' ''Atrium''),
          PUT_project (Some (JStr ''2'')) (record_named ''2'' ''Bridge (new)''),
          DELETE_project (Some (JStr ''4''))]"
proof -
  have confirmed: "sync_confirmed True []"
    by (simp add: sync_confirmed_def)
  note ordered = creates_before_updates_before_deletes
    [where gw = "accepting_gateway (document_of scenario_A_target)" and autoConfirm = True
       and answer = "[]" and local_file = "Some (Some (document_of scenario_A_source))"
       and w = "()" and localData = scenario_A_source and prodData = scenario_A_target
       and ?r1.0 = "\<lparr>world = (),
             trace = [Fetch GET_data (Http True (Some (document_of scenario_A_target)))]\<rparr>"]
  from ordered [THEN conjunct2, THEN conjunct2, THEN conjunct2] scenario_A_load
    scenario_A_executes confirmed
  have "requests (trace (snd (syncData (accepting_gateway (document_of scenario_A_target)) True []
                             (Some (Some (document_of scenario_A_source))) ())))
       = GET_data # create_requests (analyze scenario_A_source scenario_A_target)
           @ update_requests (analyze scenario_A_source scenario_A_target)
           @ delete_requests (analyze scenario_A_source scenario_A_target)"
    by blast
  then show ?thesis
    using scenario_A_load scenario_A_executes confirmed
    by (simp add: scenario_A_plan create_requests_def update_requests_def delete_requests_def)
qed

lemma scenario_A_replace_load:
  "replace_load (accepting_gateway (document_of scenario_A_target)) True
       (Some (Some (document_of scenario_A_source))) ()
     = Inr (scenario_A_source, scenario_A_target,
            \<lparr>world = (),
             trace = [Fetch GET_data (Http True (Some (document_of scenario_A_target))),
                      WriteBackup (document_of scenario_A_target), Print BackupSaved]\<rparr>)"
  using replace_load_documents
    [of "accepting_gateway (document_of scenario_A_target)" "()" scenario_A_target scenario_A_source]
  by simp

lemma no_mutation_in_fetches:
  "reqs = [] \<or> reqs = [GET_data] \<Longrightarrow> filter is_mutation reqs = []"
  by (auto simp: is_mutation_def)

section \<open>Confirmation\<close>

text \<open>
  C5 (amended).  Without the auto-confirm flag, no create, update or delete request is sent
  unless the confirmation succeeds.  In the sync workflow an answer that is not \<open>yes\<close> or
  \<open>y\<close>, compared without regard to letter case, cancels the run with no such request.  In
  the replace workflow the first answer must be exactly \<open>REPLACE\<close> and the second one must
  be \<open>YES\<close> compared without regard to letter case (\<open>yes\<close> and \<open>Yes\<close> confirm as well); any
  other answer at either step cancels with no such request.
\<close>

theorem denied_confirmation_sends_no_mutation:
  "(\<not> autoConfirm \<and> toLowerCase answer \<noteq> ''yes'' \<and> toLowerCase answer \<noteq> ''y'' \<longrightarrow>
      mutations (trace (snd (syncData gw autoConfirm answer local_file w))) = [])
   \<and> (\<not> autoConfirm \<and> (answer1 \<noteq> ''REPLACE'' \<or> toUpperCase answer2 \<noteq> ''YES'') \<longrightarrow>
      mutations (trace (snd (replaceProduction gw autoConfirm answer1 answer2 backup_ok
                               local_file w))) = [])
   \<and> (\<not> autoConfirm \<and> toLowerCase answer \<noteq> ''yes'' \<and> toLowerCase answer \<noteq> ''y''
       \<and> sync_load gw local_file w = Inr (localData, prodData, r1)
       \<and> \<not> plan_empty (analyze localData prodData) \<and> \<not> summary_throws localData prodData \<longrightarrow>
      fst (syncData gw autoConfirm answer local_file w) = Returned
      \<and> last (trace (snd (syncData gw autoConfirm answer local_file w))) = Print SyncCancelled)
   \<and> (\<not> autoConfirm \<and> (answer1 \<noteq> ''REPLACE'' \<or> toUpperCase answer2 \<noteq> ''YES'')
       \<and> replace_load gw backup_ok local_file w = Inr (localData, prodData, r2) \<longrightarrow>
      fst (replaceProduction gw autoConfirm answer1 answer2 backup_ok local_file w) = Returned
      \<and> last (trace (snd (replaceProduction gw autoConfirm answer1 answer2 backup_ok
                             local_file w))) = Print ReplacementCancelled)"
proof -
  have sync: "mutations (trace (snd (syncData gw autoConfirm answer local_file w))) = []"
    if "\<not> sync_confirmed autoConfirm answer"
  proof (cases "sync_load gw local_file w")
    case (Inl stopped)
    with sync_load_stopped [of gw local_file w "fst stopped" "snd stopped"] show ?thesis
      by (cases stopped) (auto simp: mutations_def syncData_requests is_mutation_def)
  next
    case (Inr loaded)
    with that show ?thesis
      by (cases loaded) (simp add: mutations_def syncData_requests is_mutation_def)
  qed
  have replace: "mutations (trace (snd (replaceProduction gw autoConfirm answer1 answer2 backup_ok
                               local_file w))) = []"
    if "\<not> replace_confirmed autoConfirm answer1 answer2"
  proof (cases "replace_load gw backup_ok local_file w")
    case (Inl stopped)
    with replace_load_stopped [of gw backup_ok local_file w "fst stopped" "snd stopped"]
    show ?thesis
      by (cases stopped) (auto simp: mutations_def replaceProduction_requests is_mutation_def)
  next
    case (Inr loaded)
    with that show ?thesis
      by (cases loaded) (simp add: mutations_def replaceProduction_requests is_mutation_def)
  qed
  have sync_cancelled: "fst (syncData gw autoConfirm answer local_file w) = Returned
      \<and> last (trace (snd (syncData gw autoConfirm answer local_file w))) = Print SyncCancelled"
    if "\<not> sync_confirmed autoConfirm answer"
       "sync_load gw local_file w = Inr (localData, prodData, r1)"
       "\<not> plan_empty (analyze localData prodData)" "\<not> summary_throws localData prodData"
  proof -
    from sync_review_cancelled [OF that(3,4,1)] obtain ls where
      "sync_review gw autoConfirm answer localData prodData r1
         = (Returned, say [SyncCancelled] (emit Ask (say ls r1)))"
      by blast
    with that(2) show ?thesis
      by (simp add: syncData_def)
  qed
  have replace_cancelled:
    "fst (replaceProduction gw autoConfirm answer1 answer2 backup_ok local_file w) = Returned
      \<and> last (trace (snd (replaceProduction gw autoConfirm answer1 answer2 backup_ok
                             local_file w))) = Print ReplacementCancelled"
    if "\<not> replace_confirmed autoConfirm answer1 answer2"
       "replace_load gw backup_ok local_file w = Inr (localData, prodData, r2)"
  proof -
    from replace_confirm_cancelled [OF that(1)] obtain ext where
      "replace_confirm gw autoConfirm answer1 answer2 localData prodData r2
             = (Returned, r2\<lparr>trace := trace r2 @ ext\<rparr>)"
      "ext \<noteq> []" "last ext = Print ReplacementCancelled"
      by blast
    then show ?thesis
      using that(2) by (simp add: replaceProduction_def)
  qed
  have s: "\<not> sync_confirmed autoConfirm answer"
    if "\<not> autoConfirm" "toLowerCase answer \<noteq> ''yes''" "toLowerCase answer \<noteq> ''y''"
    using that by (simp add: sync_confirmed_def sync_denied_def)
  have r: "\<not> replace_confirmed autoConfirm answer1 answer2"
    if "\<not> autoConfirm" "answer1 \<noteq> ''REPLACE'' \<or> toUpperCase answer2 \<noteq> ''YES''"
    using that by (auto simp: replace_confirmed_def replace_denied1_def replace_denied2_def)
  show ?thesis
  proof (intro conjI impI)
    assume "\<not> autoConfirm \<and> toLowerCase answer \<noteq> ''yes'' \<and> toLowerCase answer \<noteq> ''y''"
    then show "mutations (trace (snd (syncData gw autoConfirm answer local_file w))) = []"
      using s sync by blast
  next
    assume "\<not> autoConfirm \<and> (answer1 \<noteq> ''REPLACE'' \<or> toUpperCase answer2 \<noteq> ''YES'')"
    then show "mutations (trace (snd (replaceProduction gw autoConfirm answer1 answer2 backup_ok
                               local_file w))) = []"
      using r replace by blast
  next
    assume a: "\<not> autoConfirm \<and> toLowerCase answer \<noteq> ''yes'' \<and> toLowerCase answer \<noteq> ''y''
       \<and> sync_load gw local_file w = Inr (localData, prodData, r1)
       \<and> \<not> plan_empty (analyze localData prodData) \<and> \<not> summary_throws localData prodData"
    then have c: "\<not> sync_confirmed autoConfirm answer"
      using s by blast
    from sync_cancelled [OF c] a
    show "fst (syncData gw autoConfirm answer local_file w) = Returned"
      and "last (trace (snd (syncData gw autoConfirm answer local_file w))) = Print SyncCancelled"
      by blast+
  next
    assume a: "\<not> autoConfirm \<and> (answer1 \<noteq> ''REPLACE'' \<or> toUpperCase answer2 \<noteq> ''YES'')
       \<and> replace_load gw backup_ok local_file w = Inr (localData, prodData, r2)"
    then have c: "\<not> replace_confirmed autoConfirm answer1 answer2"
      using r by blast
    from replace_cancelled [OF c] a
    show "fst (replaceProduction gw autoConfirm answer1 answer2 backup_ok local_file w) = Returned"
      and "last (trace (snd (replaceProduction gw autoConfirm answer1 answer2 backup_ok
                             local_file w))) = Print ReplacementCancelled"
      by blast+
  qed
qed

theorem denied_confirmation_sends_no_mutation_witness:
  "toLowerCase ''No'' \<noteq> ''yes'' \<and> toLowerCase ''No'' \<noteq> ''y'' \<and> ''replace'' \<noteq> ''REPLACE''
   \<and> sync_load (accepting_gateway (document_of scenario_A_target))
         (Some (Some (document_of scenario_A_source))) ()
       = Inr (scenario_A_source, scenario_A_target,
              \<lparr>world = (),
               trace = [Fetch GET_data (Http True (Some (document_of scenario_A_target)))]\<rparr>)
   \<and> \<not> plan_empty (analyze scenario_A_source scenario_A_target)
   \<and> \<not> summary_throws scenario_A_source scenario_A_target
   \<and> replace_load (accepting_gateway (document_of scenario_A_target)) True
         (Some (Some (document_of scenario_A_source))) ()
       = Inr (scenario_A_source, scenario_A_target,
              \<lparr>world = (),
               trace = [Fetch GET_data (Http True (Some (document_of scenario_A_target))),
                        WriteBackup (document_of scenario_A_target), Print BackupSaved]\<rparr>)
   \<and> mutations (trace (snd (syncData (accepting_gateway (document_of scenario_A_target)) False
                              ''No'' (Some (Some (document_of scenario_A_source))) ()))) = []
   \<and> last (trace (snd (syncData (accepting_gateway (document_of scenario_A_target)) False
                              ''No'' (Some (Some (document_of scenario_A_source))) ())))
       = Print SyncCancelled
   \<and> mutations (trace (snd (replaceProduction (accepting_gateway (document_of scenario_A_target))
                              False ''replace'' ''YES'' True
                              (Some (Some (document_of scenario_A_source))) ()))) = []
   \<and> last (trace (snd (replaceProduction (accepting_gateway (document_of scenario_A_target))
                              False ''replace'' ''YES'' True
                              (Some (Some (document_of scenario_A_source))) ())))
       = Print ReplacementCancelled"
proof -
  have no: "toLowerCase ''No'' \<noteq> ''yes''" "toLowerCase ''No'' \<noteq> ''y''"
    by (simp_all add: toLowerCase_def lower_char_def)
  have mistyped: "''replace'' \<noteq> ''REPLACE''"
    by simp
  note denied = denied_confirmation_sends_no_mutation
    [where gw = "accepting_gateway (document_of scenario_A_target)" and autoConfirm = False
       and answer = "''No''" and ?answer1.0 = "''replace''" and ?answer2.0 = "''YES''"
       and backup_ok = True and local_file = "Some (Some (document_of scenario_A_source))"
       and w = "()" and localData = scenario_A_source and prodData = scenario_A_target
       and ?r1.0 = "\<lparr>world = (),
               trace = [Fetch GET_data (Http True (Some (document_of scenario_A_target)))]\<rparr>"
       and ?r2.0 = "\<lparr>world = (),
               trace = [Fetch GET_data (Http True (Some (document_of scenario_A_target))),
                        WriteBackup (document_of scenario_A_target), Print BackupSaved]\<rparr>"]
  show ?thesis
    using denied no mistyped scenario_A_load scenario_A_executes scenario_A_replace_load
    by simp
qed

text \<open>
  The claim as it is written asks for the exact phrase \<open>YES\<close> at the second prompt.  With
  \<open>REPLACE\<close> and then \<open>yes\<close>, which is not that phrase, the run goes on: it deletes the
  three production records and creates the three local ones.
\<close>

theorem replace_proceeds_on_lowercase_yes:
  "''yes'' \<noteq> ''YES''
   \<and> mutations (trace (snd (replaceProduction (accepting_gateway (document_of scenario_A_target))
                              False ''REPLACE'' ''yes'' True
                              (Some (Some (document_of scenario_A_source))) ())))
       = [DELETE_project (Some (JStr ''2'')), DELETE_project (Some (JStr ''3'')),
          DELETE_project (Some (JStr ''4'')),
          POST_project (record_named ''1'' ''Atrium''),
          POST_project (record_named ''2'' ''Bridge (new)''),
          POST_project (record_named ''3'' ''Campus'')]"
proof -
  have "replace_confirmed False ''REPLACE'' ''yes''"
    by (simp add: replace_confirmed_def replace_denied1_def replace_denied2_def toUpperCase_def
          upper_char_def)
  then have "requests (trace (snd (replaceProduction
                 (accepting_gateway (document_of scenario_A_target)) False ''REPLACE'' ''yes'' True
                 (Some (Some (document_of scenario_A_source))) ())))
       = GET_data # map (\<lambda>p. DELETE_project (id_of p)) (projects scenario_A_target)
           @ map POST_project (projects scenario_A_source) @ [GET_data]"
    by (simp add: replaceProduction_requests scenario_A_replace_load)
  then show ?thesis
    by (simp add: mutations_def is_mutation_def scenario_A_source_def scenario_A_target_def)
qed

lemma replace_load_stopped_no_backup:
  "replace_load gw backup_ok local_file w = Inl (st, r) \<Longrightarrow> WriteBackup data \<notin> set (trace r)"
  by (auto simp: replace_load_def Let_def split: option.splits prod.splits if_splits
           dest!: fetchProductionData_effect)

lemma replace_confirm_extends:
  "\<exists>ext. trace (snd (replace_confirm gw autoConfirm answer1 answer2 localData prodData r2))
           = trace r2 @ ext"
proof (cases "replace_confirmed autoConfirm answer1 answer2")
  case True
  from replace_confirm_executes [OF this] obtain ext where
    e: "replace_confirm gw autoConfirm answer1 answer2 localData prodData r2
          = replace_execute gw localData prodData (r2\<lparr>trace := trace r2 @ ext\<rparr>)"
    by blast
  from replace_execute_effect [of gw localData prodData "r2\<lparr>trace := trace r2 @ ext\<rparr>"]
  obtain ext' where
    "trace (snd (replace_execute gw localData prodData (r2\<lparr>trace := trace r2 @ ext\<rparr>)))
       = trace (r2\<lparr>trace := trace r2 @ ext\<rparr>) @ ext'"
    by blast
  with e show ?thesis
    by simp
next
  case False
  from replace_confirm_cancelled [OF this, of gw localData prodData r2] obtain ext where
    "replace_confirm gw autoConfirm answer1 answer2 localData prodData r2
       = (Returned, r2\<lparr>trace := trace r2 @ ext\<rparr>)"
    by blast
  then show ?thesis
    by simp
qed

section \<open>The backup of the replace workflow\<close>

text \<open>
  C6.  In the replace workflow the production snapshot is fetched and written to the backup
  file before the first delete request is sent: a run that sends any create, update or delete
  request begins with the successful fetch and the write of the very document fetched.  If
  the fetch fails or the backup cannot be written, the run exits with status 1, writes no
  backup and sends no delete and no create request.
\<close>

theorem backup_written_before_first_delete:
  "(mutations (trace (snd (replaceProduction gw autoConfirm answer1 answer2 backup_ok
                            local_file w))) \<noteq> [] \<longrightarrow>
      backup_ok
      \<and> (\<exists>data rest.
            fst (gw w GET_data) = Http True (Some data)
            \<and> trace (snd (replaceProduction gw autoConfirm answer1 answer2 backup_ok local_file w))
                = Fetch GET_data (Http True (Some data)) # WriteBackup data # rest))
   \<and> (\<not> backup_ok \<or> fetch_throws (fst (gw w GET_data)) \<longrightarrow>
      fst (replaceProduction gw autoConfirm answer1 answer2 backup_ok local_file w) = Exit1
      \<and> mutations (trace (snd (replaceProduction gw autoConfirm answer1 answer2 backup_ok
                                 local_file w))) = []
      \<and> (\<forall>data. WriteBackup data
             \<notin> set (trace (snd (replaceProduction gw autoConfirm answer1 answer2 backup_ok
                                   local_file w)))))"
proof (cases "replace_load gw backup_ok local_file w")
  case (Inl stopped)
  obtain st r where s: "stopped = (st, r)" by (cases stopped)
  with Inl have run: "replaceProduction gw autoConfirm answer1 answer2 backup_ok local_file w = (st, r)"
    by (simp add: replaceProduction_def)
  from Inl s have "st = Exit1" "requests (trace r) = [] \<or> requests (trace r) = [GET_data]"
    "\<And>data. WriteBackup data \<notin> set (trace r)"
    by (auto dest: replace_load_stopped replace_load_stopped_no_backup)
  with run show ?thesis
    by (auto simp: mutations_def is_mutation_def)
next
  case (Inr loaded)
  obtain localData prodData r2 where l: "loaded = (localData, prodData, r2)"
    by (metis prod_cases3)
  from replace_load_loaded [OF Inr [unfolded l]] obtain data where
    ok: "backup_ok" "fst (gw w GET_data) = Http True (Some data)"
      "trace r2 = [Fetch GET_data (Http True (Some data)), WriteBackup data, Print BackupSaved]"
    by blast
  from replace_confirm_extends [of gw autoConfirm answer1 answer2 localData prodData r2]
  obtain ext where
    "trace (snd (replace_confirm gw autoConfirm answer1 answer2 localData prodData r2))
       = trace r2 @ ext"
    by blast
  with Inr l ok(3)
  have "trace (snd (replaceProduction gw autoConfirm answer1 answer2 backup_ok local_file w))
      = Fetch GET_data (Http True (Some data)) # WriteBackup data # (Print BackupSaved # ext)"
    by (simp add: replaceProduction_def)
  with ok(1,2) show ?thesis
    by simp
qed

theorem backup_written_before_first_delete_witness:
  "mutations (trace (snd (replaceProduction (accepting_gateway (document_of scenario_A_target))
                            True [] [] True (Some (Some (document_of scenario_A_source))) ())))
     \<noteq> []
   \<and> take 2 (trace (snd (replaceProduction (accepting_gateway (document_of scenario_A_target))
                            True [] [] True (Some (Some (document_of scenario_A_source))) ())))
       = [Fetch GET_data (Http True (Some (document_of scenario_A_target))),
          WriteBackup (document_of scenario_A_target)]
   \<and> fst (replaceProduction (accepting_gateway (document_of scenario_A_target))
            True [] [] False (Some (Some (document_of scenario_A_source))) ()) = Exit1
   \<and> mutations (trace (snd (replaceProduction (accepting_gateway (document_of scenario_A_target))
                            True [] [] False (Some (Some (document_of scenario_A_source))) ())))
       = []"
proof -
  let ?run = "replaceProduction (accepting_gateway (document_of scenario_A_target))
                True [] [] True (Some (Some (document_of scenario_A_source))) ()"
  have "requests (trace (snd ?run))
       = GET_data # map (\<lambda>p. DELETE_project (id_of p)) (projects scenario_A_target)
           @ map POST_project (projects scenario_A_source) @ [GET_data]"
    by (simp add: replaceProduction_requests scenario_A_replace_load replace_confirmed_def)
  then have sent: "mutations (trace (snd ?run)) \<noteq> []"
    by (simp add: mutations_def is_mutation_def scenario_A_target_def)
  from backup_written_before_first_delete
         [where gw = "accepting_gateway (document_of scenario_A_target)" and autoConfirm = True
            and ?answer1.0 = "[]" and ?answer2.0 = "[]" and backup_ok = True
            and local_file = "Some (Some (document_of scenario_A_source))" and w = "()",
          THEN conjunct1, THEN mp, OF sent]
  obtain data rest where
    "fst (accepting_gateway (document_of scenario_A_target) () GET_data) = Http True (Some data)"
    "trace (snd ?run) = Fetch GET_data (Http True (Some data)) # WriteBackup data # rest"
    by blast
  then have first: "take 2 (trace (snd ?run))
       = [Fetch GET_data (Http True (Some (document_of scenario_A_target))),
          WriteBackup (document_of scenario_A_target)]"
    by simp
  from backup_written_before_first_delete
         [where gw = "accepting_gateway (document_of scenario_A_target)" and autoConfirm = True
            and ?answer1.0 = "[]" and ?answer2.0 = "[]" and backup_ok = False
            and local_file = "Some (Some (document_of scenario_A_source))" and w = "()",
          THEN conjunct2]
  have "fst (replaceProduction (accepting_gateway (document_of scenario_A_target))
            True [] [] False (Some (Some (document_of scenario_A_source))) ()) = Exit1
   \<and> mutations (trace (snd (replaceProduction (accepting_gateway (document_of scenario_A_target))
                            True [] [] False (Some (Some (document_of scenario_A_source))) ())))
       = []"
    by simp
  with sent first show ?thesis
    by simp
qed

lemma scenario_A_rejecting_load:
  "sync_load (rejecting_gateway (document_of scenario_A_target) (Some (JStr ''4'')))
       (Some (Some (document_of scenario_A_source))) ()
     = Inr (scenario_A_source, scenario_A_target,
            \<lparr>world = (),
             trace = [Fetch GET_data (Http True (Some (document_of scenario_A_target)))]\<rparr>)"
  using sync_load_documents
    [of "rejecting_gateway (document_of scenario_A_target) (Some (JStr ''4''))" "()"
        scenario_A_target scenario_A_source]
  by (simp add: rejecting_gateway_def)

lemma scenario_A_rejecting_run:
  "syncData (rejecting_gateway (document_of scenario_A_target) (Some (JStr ''4''))) True []
       (Some (Some (document_of scenario_A_source))) ()
     = (Returned,
        \<lparr>world = (),
         trace = [Fetch GET_data (Http True (Some (document_of scenario_A_target))),
                  Print (SyncSummary (analyze scenario_A_source scenario_A_target)),
                  Print StartingSync,
                  Fetch (POST_project (record_named ''1'' ''Atrium''))
                        (Http True (Some (JObj [(''success'', JBool True)]))),
                  Print (Done Create (record_named ''1'' ''Atrium'')),
                  Fetch (PUT_project (Some (JStr ''2'')) (record_named ''2'' ''Bridge (new)''))
                        (Http True (Some (JObj [(''success'', JBool True)]))),
                  Print (Done Update (record_named ''2'' ''Bridge (new)'')),
                  Fetch (DELETE_project (Some (JStr ''4'')))
                        (Http False (Some (JObj [(''error'', JStr ''Failed to delete project'')]))),
                  Print (FailedTo Delete (record_named ''4'' ''Depot'')),
                  Print (SyncComplete 2 1)]\<rparr>)"
proof -
  have "sync_review (rejecting_gateway (document_of scenario_A_target) (Some (JStr ''4''))) True []
          scenario_A_source scenario_A_target
          \<lparr>world = (),
           trace = [Fetch GET_data (Http True (Some (document_of scenario_A_target)))]\<rparr>
      = (Returned,
         execute_plan (rejecting_gateway (document_of scenario_A_target) (Some (JStr ''4'')))
           (analyze scenario_A_source scenario_A_target)
           \<lparr>world = (),
            trace = [Fetch GET_data (Http True (Some (document_of scenario_A_target))),
                     Print (SyncSummary (analyze scenario_A_source scenario_A_target))]\<rparr>)"
    using scenario_A_executes(1)
    by (simp add: sync_review_def Let_def say_def scenario_A_plan)
  then show ?thesis
    by (simp add: syncData_def scenario_A_rejecting_load scenario_A_plan execute_plan_def
          attempt_def fetch_def say_def rejecting_gateway_def nullish_def)
qed

section \<open>Failures of single operations\<close>

text \<open>
  C7.  For every batch of create, update or delete operations, the failure of one operation
  (a network error or a response that is not \<open>ok\<close>) is caught and counted, and every other
  operation of the batch is still attempted.  Whatever the gateway answers, each of the
  three loops of the sync and each of the two passes of the replace sends one request for
  every entry of its list, in order; the successes and failures it counts add up to the
  length of the list; and the failures it counts are exactly the requests that were not
  answered with \<open>ok\<close>.  A confirmed sync run returns normally and ends with these counts; a
  confirmed replace run sends every delete and every create and prints these counts.
\<close>

theorem every_operation_attempted_failures_counted:
  "(case create_loop gw ps (s, f, r) of (s', f', r') \<Rightarrow>
      mutations (trace r') = mutations (trace r) @ map POST_project ps
      \<and> s' + f' = s + f + length ps \<and> f' + failures (trace r) = f + failures (trace r'))
   \<and> (case update_loop gw us (s, f, r) of (s', f', r') \<Rightarrow>
      mutations (trace r')
        = mutations (trace r) @ map (\<lambda>u. PUT_project (id_of (local u)) (local u)) us
      \<and> s' + f' = s + f + length us \<and> f' + failures (trace r) = f + failures (trace r'))
   \<and> (case delete_loop gw ps (s, f, r) of (s', f', r') \<Rightarrow>
      mutations (trace r') = mutations (trace r) @ map (\<lambda>p. DELETE_project (id_of p)) ps
      \<and> s' + f' = s + f + length ps \<and> f' + failures (trace r) = f + failures (trace r'))
   \<and> (case deleteAllProjects gw ps (s, f, r) of (s', f', r') \<Rightarrow>
      mutations (trace r') = mutations (trace r) @ map (\<lambda>p. DELETE_project (id_of p)) ps
      \<and> s' + f' = s + f + length ps \<and> f' + failures (trace r) = f + failures (trace r'))
   \<and> (case createProjects gw ps (s, f, r) of (s', f', r') \<Rightarrow>
      mutations (trace r') = mutations (trace r) @ map POST_project ps
      \<and> s' + f' = s + f + length ps \<and> f' + failures (trace r) = f + failures (trace r'))
   \<and> (sync_load gw local_file w = Inr (localData, prodData, r1)
       \<and> \<not> plan_empty (analyze localData prodData) \<and> \<not> summary_throws localData prodData
       \<and> sync_confirmed autoConfirm answer \<longrightarrow>
      fst (syncData gw autoConfirm answer local_file w) = Returned
      \<and> mutations (trace (snd (syncData gw autoConfirm answer local_file w)))
          = create_requests (analyze localData prodData)
            @ update_requests (analyze localData prodData)
            @ delete_requests (analyze localData prodData)
      \<and> (\<exists>sc fc. last (trace (snd (syncData gw autoConfirm answer local_file w)))
                    = Print (SyncComplete sc fc)
            \<and> sc + fc = length (toCreate (analyze localData prodData))
                        + length (toUpdate (analyze localData prodData))
                        + length (toDelete (analyze localData prodData))
            \<and> fc = failures (trace (snd (syncData gw autoConfirm answer local_file w)))))
   \<and> (replace_load gw backup_ok local_file w = Inr (localData, prodData, r2)
       \<and> replace_confirmed autoConfirm answer1 answer2 \<longrightarrow>
      mutations (trace (snd (replaceProduction gw autoConfirm answer1 answer2 backup_ok
                               local_file w)))
        = map (\<lambda>p. DELETE_project (id_of p)) (projects prodData)
          @ map POST_project (projects localData)
      \<and> (\<exists>d c fc. Print (ReplacementComplete d c fc)
                    \<in> set (trace (snd (replaceProduction gw autoConfirm answer1 answer2
                                          backup_ok local_file w)))
            \<and> d + c + fc = length (projects prodData) + length (projects localData)
            \<and> fc = failures (trace (snd (replaceProduction gw autoConfirm answer1 answer2
                                            backup_ok local_file w)))))"
proof (intro conjI impI)
  show "case create_loop gw ps (s, f, r) of (s', f', r') \<Rightarrow>
      mutations (trace r') = mutations (trace r) @ map POST_project ps
      \<and> s' + f' = s + f + length ps \<and> f' + failures (trace r) = f + failures (trace r')"
  proof -
    obtain s' f' r' where l: "create_loop gw ps (s, f, r) = (s', f', r')"
      by (metis prod_cases3)
    from create_loop_effect [OF l] obtain ext where
      "trace r' = trace r @ ext" "requests ext = map POST_project ps"
      "s' + f' = s + f + length ps" "f' = f + failures ext"
      by blast
    with l show ?thesis
      by (simp add: mutations_def)
  qed
  then show "case createProjects gw ps (s, f, r) of (s', f', r') \<Rightarrow>
      mutations (trace r') = mutations (trace r) @ map POST_project ps
      \<and> s' + f' = s + f + length ps \<and> f' + failures (trace r) = f + failures (trace r')"
    by (simp add: createProjects_is_create_loop)
  show "case update_loop gw us (s, f, r) of (s', f', r') \<Rightarrow>
      mutations (trace r')
        = mutations (trace r) @ map (\<lambda>u. PUT_project (id_of (local u)) (local u)) us
      \<and> s' + f' = s + f + length us \<and> f' + failures (trace r) = f + failures (trace r')"
  proof -
    obtain s' f' r' where l: "update_loop gw us (s, f, r) = (s', f', r')"
      by (metis prod_cases3)
    from update_loop_effect [OF l] obtain ext where
      "trace r' = trace r @ ext"
      "requests ext = map (\<lambda>u. PUT_project (id_of (local u)) (local u)) us"
      "s' + f' = s + f + length us" "f' = f + failures ext"
      by blast
    with l show ?thesis
      by (simp add: mutations_def)
  qed
  show "case delete_loop gw ps (s, f, r) of (s', f', r') \<Rightarrow>
      mutations (trace r') = mutations (trace r) @ map (\<lambda>p. DELETE_project (id_of p)) ps
      \<and> s' + f' = s + f + length ps \<and> f' + failures (trace r) = f + failures (trace r')"
  proof -
    obtain s' f' r' where l: "delete_loop gw ps (s, f, r) = (s', f', r')"
      by (metis prod_cases3)
    from delete_loop_effect [OF l] obtain ext where
      "trace r' = trace r @ ext" "requests ext = map (\<lambda>p. DELETE_project (id_of p)) ps"
      "s' + f' = s + f + length ps" "f' = f + failures ext"
      by blast
    with l show ?thesis
      by (simp add: mutations_def)
  qed
  show "case deleteAllProjects gw ps (s, f, r) of (s', f', r') \<Rightarrow>
      mutations (trace r') = mutations (trace r) @ map (\<lambda>p. DELETE_project (id_of p)) ps
      \<and> s' + f' = s + f + length ps \<and> f' + failures (trace r) = f + failures (trace r')"
  proof -
    obtain s' f' r' where l: "deleteAllProjects gw ps (s, f, r) = (s', f', r')"
      by (metis prod_cases3)
    from deleteAllProjects_effect [OF l] obtain ext where
      "trace r' = trace r @ ext" "requests ext = map (\<lambda>p. DELETE_project (id_of p)) ps"
      "s' + f' = s + f + length ps" "f' = f + failures ext"
      by blast
    with l show ?thesis
      by (simp add: mutations_def)
  qed
next
  assume a: "sync_load gw local_file w = Inr (localData, prodData, r1)
       \<and> \<not> plan_empty (analyze localData prodData) \<and> \<not> summary_throws localData prodData
       \<and> sync_confirmed autoConfirm answer"
  let ?pl = "analyze localData prodData"
  let ?run = "syncData gw autoConfirm answer local_file w"
  from a have first: "trace r1 = [Fetch GET_data (fst (gw w GET_data))]"
    by (auto dest: sync_load_loaded)
  from a sync_review_executes [of localData prodData autoConfirm answer gw r1]
  obtain r2 ext where
    r2: "sync_review gw autoConfirm answer localData prodData r1 = (Returned, execute_plan gw ?pl r2)"
      "trace r2 = trace r1 @ ext" "requests ext = []" "failures ext = 0"
    by blast
  from execute_plan_effect [of gw ?pl r2] obtain ext' sc fc where
    e: "trace (execute_plan gw ?pl r2) = trace r2 @ ext' @ [Print (SyncComplete sc fc)]"
      "requests ext' = create_requests ?pl @ update_requests ?pl @ delete_requests ?pl"
      "sc + fc = length (toCreate ?pl) + length (toUpdate ?pl) + length (toDelete ?pl)"
      "fc = failures ext'"
    by blast
  from a r2(1) have run: "?run = (Returned, execute_plan gw ?pl r2)"
    by (simp add: syncData_def)
  then show "fst ?run = Returned"
    by simp
  from a show "mutations (trace (snd ?run))
          = create_requests ?pl @ update_requests ?pl @ delete_requests ?pl"
    by (simp add: mutations_def syncData_requests is_mutation_def create_requests_def
          update_requests_def delete_requests_def)
  have "last (trace (snd ?run)) = Print (SyncComplete sc fc)"
    using run e(1) by simp
  moreover have "fc = failures (trace (snd ?run))"
    using run e(1,4) r2(2,4) first by (simp add: is_mutation_def)
  ultimately show "\<exists>sc fc. last (trace (snd ?run)) = Print (SyncComplete sc fc)
            \<and> sc + fc = length (toCreate ?pl) + length (toUpdate ?pl) + length (toDelete ?pl)
            \<and> fc = failures (trace (snd ?run))"
    using e(3) by blast
next
  assume a: "replace_load gw backup_ok local_file w = Inr (localData, prodData, r2)
       \<and> replace_confirmed autoConfirm answer1 answer2"
  let ?run = "replaceProduction gw autoConfirm answer1 answer2 backup_ok local_file w"
  from a replace_load_loaded [of gw backup_ok local_file w localData prodData r2]
  have first: "failures (trace r2) = 0"
    by (auto simp: is_mutation_def)
  from a replace_confirm_executes [of autoConfirm answer1 answer2 gw localData prodData r2]
  obtain ext where
    x: "replace_confirm gw autoConfirm answer1 answer2 localData prodData r2
          = replace_execute gw localData prodData (r2\<lparr>trace := trace r2 @ ext\<rparr>)"
      "requests ext = []" "failures ext = 0"
    by blast
  from replace_execute_effect [of gw localData prodData "r2\<lparr>trace := trace r2 @ ext\<rparr>"]
  obtain ext' d c fc where
    e: "trace (snd (replace_execute gw localData prodData (r2\<lparr>trace := trace r2 @ ext\<rparr>)))
          = trace (r2\<lparr>trace := trace r2 @ ext\<rparr>) @ ext'"
      "Print (ReplacementComplete d c fc) \<in> set ext'"
      "d + c + fc = length (projects prodData) + length (projects localData)"
      "fc = failures ext'"
    by blast
  from a x(1) have run: "?run = replace_execute gw localData prodData (r2\<lparr>trace := trace r2 @ ext\<rparr>)"
    by (simp add: replaceProduction_def)
  from a show "mutations (trace (snd ?run))
        = map (\<lambda>p. DELETE_project (id_of p)) (projects prodData)
          @ map POST_project (projects localData)"
    by (simp add: mutations_def replaceProduction_requests is_mutation_def)
  have "Print (ReplacementComplete d c fc) \<in> set (trace (snd ?run))"
    using run e(1,2) by simp
  moreover have "fc = failures (trace (snd ?run))"
    using run e(1,4) x(3) first by simp
  ultimately show "\<exists>d c fc. Print (ReplacementComplete d c fc) \<in> set (trace (snd ?run))
            \<and> d + c + fc = length (projects prodData) + length (projects localData)
            \<and> fc = failures (trace (snd ?run))"
    using e(3) by blast
qed

theorem every_operation_attempted_failures_counted_witness:
  "sync_load (rejecting_gateway (document_of scenario_A_target) (Some (JStr ''4'')))
       (Some (Some (document_of scenario_A_source))) ()
     = Inr (scenario_A_source, scenario_A_target,
            \<lparr>world = (),
             trace = [Fetch GET_data (Http True (Some (document_of scenario_A_target)))]\<rparr>)
   \<and> \<not> plan_empty (analyze scenario_A_source scenario_A_target)
   \<and> \<not> summary_throws scenario_A_source scenario_A_target
   \<and> sync_confirmed True []
   \<and> fst (syncData (rejecting_gateway (document_of scenario_A_target) (Some (JStr ''4''))) True []
            (Some (Some (document_of scenario_A_source))) ()) = Returned
   \<and> mutations (trace (snd (syncData (rejecting_gateway (document_of scenario_A_target)
                                        (Some (JStr ''4''))) True []
                              (Some (Some (document_of scenario_A_source))) ())))
       = [POST_project (record_named ''1'' ''Atrium''),
          PUT_project (Some (JStr ''2'')) (record_named ''2'' ''Bridge (new)''),
          DELETE_project (Some (JStr ''4''))]
   \<and> last (trace (snd (syncData (rejecting_gateway (document_of scenario_A_target)
                                   (Some (JStr ''4''))) True []
                         (Some (Some (document_of scenario_A_source))) ())))
       = Print (SyncComplete 2 1)
   \<and> failures (trace (snd (syncData (rejecting_gateway (document_of scenario_A_target)
                                       (Some (JStr ''4''))) True []
                             (Some (Some (document_of scenario_A_source))) ()))) = 1"
proof -
  have confirmed: "sync_confirmed True []"
    by (simp add: sync_confirmed_def)
  note counted = every_operation_attempted_failures_counted
    [where gw = "rejecting_gateway (document_of scenario_A_target) (Some (JStr ''4''))"
       and autoConfirm = True and answer = "[]"
       and local_file = "Some (Some (document_of scenario_A_source))" and w = "()"
       and localData = scenario_A_source and prodData = scenario_A_target
       and ?r1.0 = "\<lparr>world = (),
             trace = [Fetch GET_data (Http True (Some (document_of scenario_A_target)))]\<rparr>",
     THEN conjunct2, THEN conjunct2, THEN conjunct2, THEN conjunct2, THEN conjunct2,
     THEN conjunct1, THEN mp]
  have hyps: "sync_load (rejecting_gateway (document_of scenario_A_target) (Some (JStr ''4'')))
       (Some (Some (document_of scenario_A_source))) ()
     = Inr (scenario_A_source, scenario_A_target,
            \<lparr>world = (),
             trace = [Fetch GET_data (Http True (Some (document_of scenario_A_target)))]\<rparr>)
   \<and> \<not> plan_empty (analyze scenario_A_source scenario_A_target)
   \<and> \<not> summary_throws scenario_A_source scenario_A_target
   \<and> sync_confirmed True []"
    using scenario_A_rejecting_load scenario_A_executes confirmed by simp
  from counted [OF hyps]
  have "fst (syncData (rejecting_gateway (document_of scenario_A_target) (Some (JStr ''4''))) True []
            (Some (Some (document_of scenario_A_source))) ()) = Returned"
    and "mutations (trace (snd (syncData (rejecting_gateway (document_of scenario_A_target)
                                        (Some (JStr ''4''))) True []
                              (Some (Some (document_of scenario_A_source))) ())))
       = create_requests (analyze scenario_A_source scenario_A_target)
         @ update_requests (analyze scenario_A_source scenario_A_target)
         @ delete_requests (analyze scenario_A_source scenario_A_target)"
    by simp_all
  then show ?thesis
    using hyps
    by (simp add: scenario_A_rejecting_run is_mutation_def scenario_A_plan create_requests_def
          update_requests_def delete_requests_def)
qed

text \<open>
  A failure in the middle of a pass: with the deletion of id 2 rejected, the deletions of 3
  and 4 are sent all the same, in both scripts, and the counts are two successes and one
  failure.
\<close>

lemma rejected_deletion_then_the_rest:
  "delete_loop (rejecting_gateway data (Some (JStr ''2''))) (projects scenario_A_target)
       (0, 0, \<lparr>world = (), trace = []\<rparr>)
     = (2, 1,
        \<lparr>world = (),
         trace = [Fetch (DELETE_project (Some (JStr ''2'')))
                    (Http False (Some (JObj [(''error'', JStr ''Failed to delete project'')]))),
                  Print (FailedTo Delete (record_named ''2'' ''Bridge'')),
                  Fetch (DELETE_project (Some (JStr ''3'')))
                    (Http True (Some (JObj [(''success'', JBool True)]))),
                  Print (Done Delete (record_named ''3'' ''Campus'')),
                  Fetch (DELETE_project (Some (JStr ''4'')))
                    (Http True (Some (JObj [(''success'', JBool True)]))),
                  Print (Done Delete (record_named ''4'' ''Depot''))]\<rparr>)"
  by (simp add: scenario_A_target_def attempt_def fetch_def say_def emit_def
        rejecting_gateway_def nullish_def)

lemma rejected_deletion_in_replace:
  "deleteAllProjects (rejecting_gateway data (Some (JStr ''2''))) (projects scenario_A_target)
       (0, 0, \<lparr>world = (), trace = []\<rparr>)
     = (2, 1,
        \<lparr>world = (),
         trace = [Fetch (DELETE_project (Some (JStr ''2'')))
                    (Http False (Some (JObj [(''error'', JStr ''Failed to delete project'')]))),
                  Print (FailedTo Delete (record_named ''2'' ''Bridge'')),
                  Fetch (DELETE_project (Some (JStr ''3'')))
                    (Http True (Some (JObj [(''success'', JBool True)]))),
                  Print (Done Delete (record_named ''3'' ''Campus'')),
                  Fetch (DELETE_project (Some (JStr ''4'')))
                    (Http True (Some (JObj [(''success'', JBool True)]))),
                  Print (Done Delete (record_named ''4'' ''Depot''))]\<rparr>)"
  by (simp add: scenario_A_target_def fetch_def say_def emit_def
        rejecting_gateway_def nullish_def)

lemma scenario_D_plan:
  "analyze scenario_D_source scenario_D_target
     = \<lparr>toCreate = [], toUpdate = [], toDelete = [], settingsChanged = True\<rparr>"
  by (simp add: analyze_eq scenario_D_source_def scenario_D_target_def project_map_def
        new_Map_def same_value_zero_def settings_with_def deepEqual_iff enumeration_eval)

lemma scenario_D_settings:
  "wf_settings (settings scenario_D_source)" "wf_settings (settings scenario_D_target)"
  by (simp_all add: wf_settings_def scenario_D_source_def scenario_D_target_def
        settings_with_def property_def)

lemma scenario_D_load:
  "sync_load (accepting_gateway (document_of scenario_D_target))
       (Some (Some (document_of scenario_D_source))) ()
     = Inr (scenario_D_source, scenario_D_target,
            \<lparr>world = (),
             trace = [Fetch GET_data (Http True (Some (document_of scenario_D_target)))]\<rparr>)"
  using sync_load_documents
    [of "accepting_gateway (document_of scenario_D_target)" "()" scenario_D_target scenario_D_source]
  by simp

lemma scenario_D_replace_load:
  "replace_load (accepting_gateway (document_of scenario_D_target)) True
       (Some (Some (document_of scenario_D_source))) ()
     = Inr (scenario_D_source, scenario_D_target,
            \<lparr>world = (),
             trace = [Fetch GET_data (Http True (Some (document_of scenario_D_target))),
                      WriteBackup (document_of scenario_D_target), Print BackupSaved]\<rparr>)"
  using replace_load_documents
    [of "accepting_gateway (document_of scenario_D_target)" "()" scenario_D_target scenario_D_source]
  by simp

section \<open>Settings\<close>

text \<open>
  C8 (amended).  When the settings of the two snapshots differ (for example only in
  \<open>colorMap\<close>), the plan has \<open>settingsChanged = true\<close>, and neither the sync nor the replace
  workflow ever sends a request that changes the settings.  The settings differ when they
  are not the same value once the properties of every object are listed as JavaScript
  enumerates them, which is all that a script can see of the order in which they were
  written; \<open>settingsChanged\<close> holds exactly then.  In every run that goes on to
  execute (a sync that is confirmed, with settings as the data model has them on both sides;
  a replace that is confirmed) the report states that the settings sync is not implemented,
  and the sync run returns normally.
\<close>

theorem settings_change_detected_reported_never_applied:
  "settingsChanged (analyze localData prodData)
     = (\<not> deepEqual (settings localData) (settings prodData))
   \<and> settingsChanged (analyze localData prodData)
     = (map_option enumerated (settings localData) \<noteq> map_option enumerated (settings prodData))
   \<and> settingsChanged (analyze scenario_D_source scenario_D_target)
   \<and> \<not> list_ex is_settings_mutation
         (requests (trace (snd (syncData gw autoConfirm answer local_file w))))
   \<and> \<not> list_ex is_settings_mutation
         (requests (trace (snd (replaceProduction gw autoConfirm answer1 answer2 backup_ok
                                  local_file w))))
   \<and> (sync_load gw local_file w = Inr (localData, prodData, r1)
       \<and> settingsChanged (analyze localData prodData)
       \<and> wf_settings (settings localData) \<and> wf_settings (settings prodData)
       \<and> sync_confirmed autoConfirm answer \<longrightarrow>
      fst (syncData gw autoConfirm answer local_file w) = Returned
      \<and> Print SettingsSyncNotImplemented
           \<in> set (trace (snd (syncData gw autoConfirm answer local_file w))))
   \<and> (replace_load gw backup_ok local_file w = Inr (localData, prodData, r2)
       \<and> replace_confirmed autoConfirm answer1 answer2 \<longrightarrow>
      Print SettingsSyncNotImplemented
        \<in> set (trace (snd (replaceProduction gw autoConfirm answer1 answer2 backup_ok
                              local_file w))))"
proof (intro conjI impI)
  show "settingsChanged (analyze localData prodData)
     = (\<not> deepEqual (settings localData) (settings prodData))"
    by (simp add: analyze_eq)
  show "settingsChanged (analyze localData prodData)
     = (map_option enumerated (settings localData) \<noteq> map_option enumerated (settings prodData))"
    by (simp add: analyze_eq deepEqual_iff)
  show "settingsChanged (analyze scenario_D_source scenario_D_target)"
    by (simp add: scenario_D_plan)
  show "\<not> list_ex is_settings_mutation
         (requests (trace (snd (syncData gw autoConfirm answer local_file w))))"
  proof (cases "sync_load gw local_file w")
    case (Inl stopped)
    with sync_load_stopped [of gw local_file w "fst stopped" "snd stopped"] show ?thesis
      by (cases stopped) (auto simp: syncData_requests)
  next
    case (Inr loaded)
    then show ?thesis
      by (cases loaded)
         (simp add: syncData_requests create_requests_def update_requests_def
            delete_requests_def)
  qed
  show "\<not> list_ex is_settings_mutation
         (requests (trace (snd (replaceProduction gw autoConfirm answer1 answer2 backup_ok
                                  local_file w))))"
  proof (cases "replace_load gw backup_ok local_file w")
    case (Inl stopped)
    with replace_load_stopped [of gw backup_ok local_file w "fst stopped" "snd stopped"]
    show ?thesis
      by (cases stopped) (auto simp: replaceProduction_requests)
  next
    case (Inr loaded)
    then show ?thesis
      by (cases loaded) (simp add: replaceProduction_requests)
  qed
next
  assume a: "sync_load gw local_file w = Inr (localData, prodData, r1)
       \<and> settingsChanged (analyze localData prodData)
       \<and> wf_settings (settings localData) \<and> wf_settings (settings prodData)
       \<and> sync_confirmed autoConfirm answer"
  let ?pl = "analyze localData prodData"
  from a have ne: "\<not> plan_empty ?pl"
    by (simp add: plan_empty_def)
  from a have nt: "\<not> summary_throws localData prodData"
    by (simp add: summary_throws_def wf_settings_summary)
  from a sync_review_executes [OF ne nt, of autoConfirm answer gw r1] obtain r2 where
    r2: "sync_review gw autoConfirm answer localData prodData r1 = (Returned, execute_plan gw ?pl r2)"
    by blast
  from execute_plan_effect [of gw ?pl r2] a obtain ext sc fc where
    "trace (execute_plan gw ?pl r2) = trace r2 @ ext @ [Print (SyncComplete sc fc)]"
    "Print SettingsSyncNotImplemented \<in> set ext"
    by blast
  with a r2 show "fst (syncData gw autoConfirm answer local_file w) = Returned"
    and "Print SettingsSyncNotImplemented
           \<in> set (trace (snd (syncData gw autoConfirm answer local_file w)))"
    by (simp_all add: syncData_def)
next
  assume a: "replace_load gw backup_ok local_file w = Inr (localData, prodData, r2)
       \<and> replace_confirmed autoConfirm answer1 answer2"
  from a replace_confirm_executes [of autoConfirm answer1 answer2 gw localData prodData r2]
  obtain ext where
    x: "replace_confirm gw autoConfirm answer1 answer2 localData prodData r2
          = replace_execute gw localData prodData (r2\<lparr>trace := trace r2 @ ext\<rparr>)"
    by blast
  from replace_execute_effect [of gw localData prodData "r2\<lparr>trace := trace r2 @ ext\<rparr>"]
  obtain ext' where
    "trace (snd (replace_execute gw localData prodData (r2\<lparr>trace := trace r2 @ ext\<rparr>)))
          = trace (r2\<lparr>trace := trace r2 @ ext\<rparr>) @ ext'"
    "Print SettingsSyncNotImplemented \<in> set ext'"
    by blast
  with a x show "Print SettingsSyncNotImplemented
        \<in> set (trace (snd (replaceProduction gw autoConfirm answer1 answer2 backup_ok
                              local_file w)))"
    by (simp add: replaceProduction_def)
qed

theorem settings_change_detected_reported_never_applied_witness:
  "settings scenario_D_source \<noteq> settings scenario_D_target
   \<and> map_option enumerated (settings scenario_D_source)
       \<noteq> map_option enumerated (settings scenario_D_target)
   \<and> sync_load (accepting_gateway (document_of scenario_D_target))
         (Some (Some (document_of scenario_D_source))) ()
       = Inr (scenario_D_source, scenario_D_target,
              \<lparr>world = (),
               trace = [Fetch GET_data (Http True (Some (document_of scenario_D_target)))]\<rparr>)
   \<and> settingsChanged (analyze scenario_D_source scenario_D_target)
   \<and> wf_settings (settings scenario_D_source) \<and> wf_settings (settings scenario_D_target)
   \<and> sync_confirmed False ''yes''
   \<and> replace_load (accepting_gateway (document_of scenario_D_target)) True
         (Some (Some (document_of scenario_D_source))) ()
       = Inr (scenario_D_source, scenario_D_target,
              \<lparr>world = (),
               trace = [Fetch GET_data (Http True (Some (document_of scenario_D_target))),
                        WriteBackup (document_of scenario_D_target), Print BackupSaved]\<rparr>)
   \<and> replace_confirmed False ''REPLACE'' ''YES''
   \<and> fst (syncData (accepting_gateway (document_of scenario_D_target)) False ''yes''
            (Some (Some (document_of scenario_D_source))) ()) = Returned
   \<and> Print SettingsSyncNotImplemented
       \<in> set (trace (snd (syncData (accepting_gateway (document_of scenario_D_target)) False
                              ''yes'' (Some (Some (document_of scenario_D_source))) ())))
   \<and> Print SettingsSyncNotImplemented
       \<in> set (trace (snd (replaceProduction (accepting_gateway (document_of scenario_D_target))
                              False ''REPLACE'' ''YES'' True
                              (Some (Some (document_of scenario_D_source))) ())))"
proof -
  have differ: "settings scenario_D_source \<noteq> settings scenario_D_target"
    by (simp add: scenario_D_source_def scenario_D_target_def settings_with_def)
  have seen: "map_option enumerated (settings scenario_D_source)
       \<noteq> map_option enumerated (settings scenario_D_target)"
    by (simp add: scenario_D_source_def scenario_D_target_def settings_with_def enumeration_eval)
  have yes: "sync_confirmed False ''yes''"
    by (simp add: sync_confirmed_def sync_denied_def toLowerCase_def lower_char_def)
  have phrases: "replace_confirmed False ''REPLACE'' ''YES''"
    by (simp add: replace_confirmed_def replace_denied1_def replace_denied2_def
          toUpperCase_def upper_char_def)
  note reported = settings_change_detected_reported_never_applied
    [where gw = "accepting_gateway (document_of scenario_D_target)" and autoConfirm = False
       and answer = "''yes''" and ?answer1.0 = "''REPLACE''" and ?answer2.0 = "''YES''"
       and backup_ok = True and local_file = "Some (Some (document_of scenario_D_source))"
       and w = "()" and localData = scenario_D_source and prodData = scenario_D_target
       and ?r1.0 = "\<lparr>world = (),
               trace = [Fetch GET_data (Http True (Some (document_of scenario_D_target)))]\<rparr>"
       and ?r2.0 = "\<lparr>world = (),
               trace = [Fetch GET_data (Http True (Some (document_of scenario_D_target))),
                        WriteBackup (document_of scenario_D_target), Print BackupSaved]\<rparr>"]
  from reported seen have changed: "settingsChanged (analyze scenario_D_source scenario_D_target)"
    by blast
  show ?thesis
    using reported differ seen changed yes phrases scenario_D_settings scenario_D_load
      scenario_D_replace_load
    by simp
qed

text \<open>
  The claim as it is written promises that statement whenever the settings differ.  In
  scenario D, answered with \<open>no\<close>, the settings differ and the plan says so, but the run is
  cancelled at the prompt and its report ends there, without a word on the settings not
  being applied.
\<close>

theorem cancelled_sync_is_silent_on_settings:
  "settings scenario_D_source \<noteq> settings scenario_D_target
   \<and> settingsChanged (analyze scenario_D_source scenario_D_target)
   \<and> trace (snd (syncData (accepting_gateway (document_of scenario_D_target)) False ''no''
                    (Some (Some (document_of scenario_D_source))) ()))
       = [Fetch GET_data (Http True (Some (document_of scenario_D_target))),
          Print (SyncSummary (analyze scenario_D_source scenario_D_target)),
          Print SettingsWillBeUpdated, Print (ColorMap 1 1), Ask, Print SyncCancelled]
   \<and> Print SettingsSyncNotImplemented
       \<notin> set (trace (snd (syncData (accepting_gateway (document_of scenario_D_target)) False
                              ''no'' (Some (Some (document_of scenario_D_source))) ())))"
proof -
  have differ: "settings scenario_D_source \<noteq> settings scenario_D_target"
    by (simp add: scenario_D_source_def scenario_D_target_def settings_with_def)
  have shown: "show_settings (settings scenario_D_source) (settings scenario_D_target)
      = ([SettingsWillBeUpdated, ColorMap 1 1], False)"
    by (simp add: show_settings_def scenario_D_source_def scenario_D_target_def settings_with_def
          nullish_def member_def property_def strict_neq_def deepEqual_iff enumeration_eval
          Let_def)
  have no: "sync_denied ''no''"
    by (simp add: sync_denied_def toLowerCase_def lower_char_def)
  have run: "trace (snd (syncData (accepting_gateway (document_of scenario_D_target)) False ''no''
                    (Some (Some (document_of scenario_D_source))) ()))
       = [Fetch GET_data (Http True (Some (document_of scenario_D_target))),
          Print (SyncSummary (analyze scenario_D_source scenario_D_target)),
          Print SettingsWillBeUpdated, Print (ColorMap 1 1), Ask, Print SyncCancelled]"
    using no
    by (simp add: syncData_def scenario_D_load sync_review_def scenario_D_plan plan_empty_def
          shown Let_def)
  show ?thesis
    unfolding run using differ by (simp add: scenario_D_plan)
qed

section \<open>The delete handler\<close>

text \<open>
  C9.  For every id, the gateway's delete operation reports success even when no record with
  that id exists.  The handler sends the \<open>DELETE\<close> without looking the id up and answers
  \<open>{ success: true }\<close> whenever the statement is not rejected, with any database; on the
  table of the source, deleting an id that is not there leaves the table as it was and is
  answered with success; and the answer is the same for any two ids and any two tables, so
  that it tells nothing about whether the record existed.
\<close>

theorem delete_answers_success_for_any_id:
  "(query db (DELETE_FROM_projects projectId) = Some db' \<longrightarrow>
      delete_handler isProduction query db projectId
        = (Json200 (JObj [(''success'', JBool True)]), db'))
   \<and> (Some (JStr projectId) \<notin> set (map pd_id rows) \<longrightarrow>
      delete_handler isProduction table_query rows projectId
        = (Json200 (JObj [(''success'', JBool True)]), rows))
   \<and> fst (delete_handler isProduction table_query rows projectId)
       = fst (delete_handler isProduction table_query rows' projectId')"
proof -
  have keep: "filter (\<lambda>row. pd_id row \<noteq> Some (JStr projectId)) rows = rows"
    if "Some (JStr projectId) \<notin> set (map pd_id rows)"
    using that by (induction rows) auto
  show ?thesis
    by (auto simp: delete_handler_def keep)
qed

theorem delete_answers_success_for_any_id_witness:
  "table_query [projectData [(''id'', JStr ''p1''), (''name'', JStr ''A''), (''stages'', JObj [])] 7]
       (DELETE_FROM_projects ''p2'')
     = Some [projectData [(''id'', JStr ''p1''), (''name'', JStr ''A''), (''stages'', JObj [])] 7]
   \<and> Some (JStr ''p2'')
       \<notin> set (map pd_id [projectData [(''id'', JStr ''p1''), (''name'', JStr ''A''), (''stages'', JObj [])] 7])
   \<and> delete_handler True table_query
         [projectData [(''id'', JStr ''p1''), (''name'', JStr ''A''), (''stages'', JObj [])] 7] ''p2''
       = (Json200 (JObj [(''success'', JBool True)]),
          [projectData [(''id'', JStr ''p1''), (''name'', JStr ''A''), (''stages'', JObj [])] 7])
   \<and> fst (delete_handler True table_query
         [projectData [(''id'', JStr ''p1''), (''name'', JStr ''A''), (''stages'', JObj [])] 7] ''p2'')
       = fst (delete_handler True table_query
         [projectData [(''id'', JStr ''p1''), (''name'', JStr ''A''), (''stages'', JObj [])] 7] ''p1'')"
proof -
  let ?rows = "[projectData [(''id'', JStr ''p1''), (''name'', JStr ''A''), (''stages'', JObj [])] 7]"
  have not_rejected: "table_query ?rows (DELETE_FROM_projects ''p2'') = Some ?rows"
    by (simp add: projectData_def property_def)
  have absent: "Some (JStr ''p2'') \<notin> set (map pd_id ?rows)"
    by (simp add: projectData_def property_def)
  show ?thesis
    using not_rejected absent
      delete_answers_success_for_any_id
        [where query = table_query and isProduction = True and projectId = "''p2''"
           and projectId' = "''p1''" and db = ?rows and db' = ?rows and rows = ?rows
           and rows' = ?rows]
    by blast
qed

section \<open>The create handler\<close>

text \<open>
  C10.  The gateway's create operation does not persist the submitted record verbatim: a
  missing field is replaced by its default (the empty string for \<open>client\<close>, \<open>value\<close>, \<open>area\<close>,
  \<open>location\<close>, \<open>thumbnail\<close> and \<open>notes\<close>, \<open>null\<close> for \<open>practiceName\<close> and
  \<open>briefDescription\<close>, \<open>#5a8a99\<close> for \<open>typeColor\<close>, the empty array for \<open>projectTypes\<close> and
  \<open>pauses\<close>), and a record submitted without \<open>number\<close> is stored with the number drawn at
  random, so that two runs of create on the same input and the same table, with two different
  draws, are both answered with success and leave two different tables.
\<close>

theorem create_fills_defaults_and_draws_number:
  "(property project ''client'' = None \<longrightarrow> pd_client (projectData project rnd) = Some (JStr []))
   \<and> (property project ''value'' = None \<longrightarrow> pd_value (projectData project rnd) = Some (JStr []))
   \<and> (property project ''area'' = None \<longrightarrow> pd_area (projectData project rnd) = Some (JStr []))
   \<and> (property project ''location'' = None
        \<longrightarrow> pd_location (projectData project rnd) = Some (JStr []))
   \<and> (property project ''thumbnail'' = None
        \<longrightarrow> pd_thumbnail (projectData project rnd) = Some (JStr []))
   \<and> (property project ''notes'' = None \<longrightarrow> pd_notes (projectData project rnd) = Some (JStr []))
   \<and> (property project ''practiceName'' = None
        \<longrightarrow> pd_practiceName (projectData project rnd) = Some JNull)
   \<and> (property project ''briefDescription'' = None
        \<longrightarrow> pd_briefDescription (projectData project rnd) = Some JNull)
   \<and> (property project ''typeColor'' = None
        \<longrightarrow> pd_typeColor (projectData project rnd) = Some (JStr ''#5a8a99''))
   \<and> (property project ''projectTypes'' = None
        \<longrightarrow> pd_projectTypes (projectData project rnd) = Some ''[]'')
   \<and> (property project ''pauses'' = None \<longrightarrow> pd_pauses (projectData project rnd) = Some ''[]'')
   \<and> (property project ''number'' = None
        \<longrightarrow> pd_number (projectData project rnd) = Some (JNum (int rnd)))
   \<and> (property project ''number'' = None \<and> r < 1000 \<and> r' < 1000 \<and> r \<noteq> r'
        \<and> \<not> violates_constraints rows (projectData project r)
        \<longrightarrow> fst (create_handler isProduction table_query rows project r)
              = fst (create_handler isProduction table_query rows project r')
          \<and> (\<exists>body. fst (create_handler isProduction table_query rows project r) = Json200 body)
          \<and> snd (create_handler isProduction table_query rows project r)
              \<noteq> snd (create_handler isProduction table_query rows project r'))"
proof -
  have draw: "projectData project r \<noteq> projectData project r'"
    if "property project ''number'' = None" "r \<noteq> r'"
    using that by (simp add: projectData_def js_or_def)
  have same: "violates_constraints rows (projectData project r')
                = violates_constraints rows (projectData project r)"
    if "property project ''number'' = None"
    using that by (simp add: violates_constraints_def projectData_def js_or_def nullish_def)
  have same_id: "pd_id (projectData project r') = pd_id (projectData project r)"
    by (simp add: projectData_def)
  have handler: "fst (create_handler isProduction table_query rows project r)
              = fst (create_handler isProduction table_query rows project r')
          \<and> (\<exists>body. fst (create_handler isProduction table_query rows project r) = Json200 body)
          \<and> snd (create_handler isProduction table_query rows project r)
              \<noteq> snd (create_handler isProduction table_query rows project r')"
    if "property project ''number'' = None" "r \<noteq> r'"
       "\<not> violates_constraints rows (projectData project r)"
    using that draw [OF that(1,2)] same [OF that(1)] same_id
    by (simp add: create_handler_def Let_def)
  have defaults: "js_or None d = d" for d
    by (simp add: js_or_def)
  have filled:
    "(property project ''client'' = None \<longrightarrow> pd_client (projectData project rnd) = Some (JStr []))
   \<and> (property project ''value'' = None \<longrightarrow> pd_value (projectData project rnd) = Some (JStr []))
   \<and> (property project ''area'' = None \<longrightarrow> pd_area (projectData project rnd) = Some (JStr []))
   \<and> (property project ''location'' = None
        \<longrightarrow> pd_location (projectData project rnd) = Some (JStr []))
   \<and> (property project ''thumbnail'' = None
        \<longrightarrow> pd_thumbnail (projectData project rnd) = Some (JStr []))
   \<and> (property project ''notes'' = None \<longrightarrow> pd_notes (projectData project rnd) = Some (JStr []))
   \<and> (property project ''practiceName'' = None
        \<longrightarrow> pd_practiceName (projectData project rnd) = Some JNull)
   \<and> (property project ''briefDescription'' = None
        \<longrightarrow> pd_briefDescription (projectData project rnd) = Some JNull)
   \<and> (property project ''typeColor'' = None
        \<longrightarrow> pd_typeColor (projectData project rnd) = Some (JStr ''#5a8a99''))
   \<and> (property project ''projectTypes'' = None
        \<longrightarrow> pd_projectTypes (projectData project rnd) = Some ''[]'')
   \<and> (property project ''pauses'' = None \<longrightarrow> pd_pauses (projectData project rnd) = Some ''[]'')
   \<and> (property project ''number'' = None
        \<longrightarrow> pd_number (projectData project rnd) = Some (JNum (int rnd)))"
    by (simp add: projectData_def defaults JSON_stringify_def)
  from handler have drawn:
    "property project ''number'' = None \<and> r < 1000 \<and> r' < 1000 \<and> r \<noteq> r'
        \<and> \<not> violates_constraints rows (projectData project r)
        \<longrightarrow> fst (create_handler isProduction table_query rows project r)
              = fst (create_handler isProduction table_query rows project r')
          \<and> (\<exists>body. fst (create_handler isProduction table_query rows project r) = Json200 body)
          \<and> snd (create_handler isProduction table_query rows project r)
              \<noteq> snd (create_handler isProduction table_query rows project r')"
    by blast
  show ?thesis
    using filled drawn by blast
qed

theorem create_fills_defaults_and_draws_number_witness:
  "property [(''id'', JStr ''p1''), (''name'', JStr ''A''), (''stages'', JObj [])] ''number'' = None
   \<and> (1 :: nat) < 1000 \<and> (2 :: nat) < 1000 \<and> (1 :: nat) \<noteq> 2
   \<and> \<not> violates_constraints []
         (projectData [(''id'', JStr ''p1''), (''name'', JStr ''A''), (''stages'', JObj [])] 1)
   \<and> pd_client (projectData [(''id'', JStr ''p1''), (''name'', JStr ''A''), (''stages'', JObj [])] 1)
       = Some (JStr [])
   \<and> pd_number (projectData [(''id'', JStr ''p1''), (''name'', JStr ''A''), (''stages'', JObj [])] 1)
       = Some (JNum 1)
   \<and> snd (create_handler True table_query []
             [(''id'', JStr ''p1''), (''name'', JStr ''A''), (''stages'', JObj [])] 1)
       \<noteq> snd (create_handler True table_query []
             [(''id'', JStr ''p1''), (''name'', JStr ''A''), (''stages'', JObj [])] 2)"
  using create_fills_defaults_and_draws_number
    [where project = "[(''id'', JStr ''p1''), (''name'', JStr ''A''), (''stages'', JObj [])]"
       and rnd = 1 and r = 1 and r' = 2 and rows = "[]" and isProduction = True]
  by (simp add: property_def violates_constraints_def projectData_def js_or_def nullish_def
        JSON_stringify_def)

end
